theory Spec2Isabelle
  imports Complex_Main
begin

section \<open>Habits-App backend: analytics, reminders and the ledger\<close>

text \<open>
  A shallow embedding of \<^verbatim>\<open>analytics.service.ts\<close>, \<^verbatim>\<open>push-notification.service.ts\<close>,
  \<^verbatim>\<open>completion.service.ts\<close> and the two controllers in front of them.

  A JavaScript \<^verbatim>\<open>Date\<close> is its \<^verbatim>\<open>getTime()\<close> value: milliseconds since the epoch, an
  \<^typ>\<open>int\<close>. The time zone of the server is the parameter \<open>tz\<close>, the clock (\<^verbatim>\<open>new Date()\<close>) is
  the parameter \<open>now\<close>. A JavaScript number that need not be an integer is the real number
  the IEEE double stands for, and every arithmetic operation rounds its exact result to
  the nearest double. A Prisma table is the list of its rows.
\<close>

subsection \<open>Rows of the tables\<close>

record Habit =
  habitId :: string
  habitUserId :: string
  habitName :: string
  reminderTime :: "string option"

record HabitCompletion =
  completionId :: string
  completionHabitId :: string
  completionDate :: int
  completionDuration :: "int option"
  completionNotes :: "string option"

record HabitSkip =
  skipId :: string
  skipHabitId :: string
  skipDate :: int
  skipReason :: "string option"

record Keys =
  p256dh :: string
  auth :: string

record NotificationSubscription =
  subscriptionId :: string
  subscriptionUserId :: string
  subscriptionHabitId :: "string option"
  endpoint :: string
  keys :: Keys

subsection \<open>Time zones and calendar days\<close>

text \<open>
  What the runtime knows of the server's zone, in milliseconds to add to UTC: the offset
  in force at an instant (\<open>utcOffset\<close>, which the local getters use), and the offset the
  runtime applies to a local date and time to turn it into an instant (\<open>wallOffset\<close>,
  which \<^verbatim>\<open>setHours\<close> uses). In a zone with summer time both change in the course of a
  year.
\<close>

record Zone =
  utcOffset :: "int \<Rightarrow> int"
  wallOffset :: "int \<Rightarrow> int"

definition fixedZone :: "int \<Rightarrow> Zone" where
  "fixedZone offset = \<lparr>utcOffset = (\<lambda>t. offset), wallOffset = (\<lambda>t. offset)\<rparr>"

definition utc :: Zone where
  "utc = fixedZone 0"

text \<open>
  \<^verbatim>\<open>America/New_York\<close> between November 2023 and November 2024: five hours behind UTC until
  2024-03-10 07:00 UTC, when the clocks go from 02:00 to 03:00, and four hours behind
  from then on.
\<close>

definition newYork :: Zone where
  "newYork =
     \<lparr>utcOffset = (\<lambda>t. if t < 1710054000000 then - 18000000 else - 14400000),
      wallOffset = (\<lambda>t. if t < 1710039600000 then - 18000000 else - 14400000)\<rparr>"

definition msPerDay :: int where
  "msPerDay = 1000 * 60 * 60 * 24"

text \<open>
  The local calendar day of an instant, as a day number. In \<^verbatim>\<open>calculateStreak\<close> the source
  builds the key \<^verbatim>\<open>`${getFullYear()}-${month}-${day}`\<close> from the local date fields; the key
  determines the local calendar day and the day determines the key, so the day number
  stands for the key.
\<close>

definition localDay :: "Zone \<Rightarrow> int \<Rightarrow> int" where
  "localDay tz t = (t + utcOffset tz t) div msPerDay"

text \<open>The instant at which local day \<open>d\<close> begins: 00:00:00.000 local time of that day.\<close>

definition localMidnight :: "Zone \<Rightarrow> int \<Rightarrow> int" where
  "localMidnight tz d = d * msPerDay - wallOffset tz (d * msPerDay)"

text \<open>\<^verbatim>\<open>date.setHours(0, 0, 0, 0); date.getTime()\<close>: the instant of local midnight.\<close>

definition startOfDay :: "Zone \<Rightarrow> int \<Rightarrow> int" where
  "startOfDay tz t = localMidnight tz (localDay tz t)"

subsection \<open>\<^verbatim>\<open>calculateStreak\<close>\<close>

text \<open>
  The \<^verbatim>\<open>while (true)\<close> loop. \<open>currentDate\<close> is the day number of the loop's date;
  \<^verbatim>\<open>setDate(getDate() - 1)\<close> moves it to the previous calendar day.
\<close>

function streakLoop :: "int list \<Rightarrow> int list \<Rightarrow> int \<Rightarrow> nat \<Rightarrow> nat" where
  "streakLoop completionDates skipDates currentDate streak =
     (if currentDate \<in> set skipDates then streak
      else if currentDate \<in> set completionDates
        then streakLoop completionDates skipDates (currentDate - 1) (streak + 1)
      else streak)"
  by pat_completeness auto

termination streakLoop
proof (relation "measure (\<lambda>(cds, sds, d, s). length (filter (\<lambda>x. x \<le> d) cds))")
  show "wf (measure (\<lambda>(cds, sds, d, s). length (filter (\<lambda>x. x \<le> d) cds)))"
    by simp
next
  fix completionDates skipDates :: "int list" and currentDate :: int and streak :: nat
  assume "currentDate \<in> set completionDates"
  then have here: "currentDate \<in> set (filter (\<lambda>x. x \<le> currentDate) completionDates)"
    by simp
  have "filter (\<lambda>x. x \<le> currentDate - 1) completionDates =
        filter (\<lambda>x. x < currentDate) (filter (\<lambda>x. x \<le> currentDate) completionDates)"
    by (induction completionDates) auto
  moreover have "length (filter (\<lambda>x. x < currentDate)
                   (filter (\<lambda>x. x \<le> currentDate) completionDates))
               < length (filter (\<lambda>x. x \<le> currentDate) completionDates)"
    using here by (intro length_filter_less [of currentDate]) simp_all
  ultimately show "((completionDates, skipDates, currentDate - 1, streak + 1),
                    (completionDates, skipDates, currentDate, streak))
       \<in> measure (\<lambda>(cds, sds, d, s). length (filter (\<lambda>x. x \<le> d) cds))"
    by simp
qed

declare streakLoop.simps [simp del]

definition calculateStreak ::
  "Zone \<Rightarrow> int \<Rightarrow> HabitCompletion list \<Rightarrow> HabitSkip list \<Rightarrow> nat" where
  "calculateStreak tz now completions skips =
     (if length completions = 0 then 0
      else
        let completionDates = map (\<lambda>c. localDay tz (completionDate c)) completions;
            skipDates = map (\<lambda>s. localDay tz (skipDate s)) skips;
            today = localDay tz (startOfDay tz now)
        in streakLoop completionDates skipDates today 0)"

subsection \<open>\<^verbatim>\<open>calculateLongestStreak\<close>\<close>

text \<open>
  The \<^verbatim>\<open>for\<close> loop over \<open>sortedDates\<close>, with its three variables. The instants are integers
  below \<open>2^53\<close>, so \<^verbatim>\<open>Math.floor((date - lastDate) / 86400000)\<close> is integer division
  rounding down.
\<close>

fun longestLoop :: "int list \<Rightarrow> nat \<Rightarrow> nat \<Rightarrow> int option \<Rightarrow> nat" where
  "longestLoop [] longestStreak currentStreak lastDate = max longestStreak currentStreak"
| "longestLoop (date # rest) longestStreak currentStreak lastDate =
     (case lastDate of
        None \<Rightarrow> longestLoop rest longestStreak 1 (Some date)
      | Some lastD \<Rightarrow>
          (let daysDiff = (date - lastD) div msPerDay
           in if daysDiff = 1
              then longestLoop rest longestStreak (currentStreak + 1) (Some date)
              else longestLoop rest (max longestStreak currentStreak) 1 (Some date)))"

definition calculateLongestStreak ::
  "Zone \<Rightarrow> HabitCompletion list \<Rightarrow> HabitSkip list \<Rightarrow> nat" where
  "calculateLongestStreak tz completions skips =
     (if length completions = 0 then 0
      else
        let completionDates = remdups (map (\<lambda>c. startOfDay tz (completionDate c)) completions);
            skipDates = remdups (map (\<lambda>s. startOfDay tz (skipDate s)) skips);
            sortedDates = sort completionDates
        in longestLoop sortedDates 0 0 None)"

subsection \<open>\<^verbatim>\<open>getHabitStatistics\<close>\<close>

text \<open>
  An IEEE double is the real number it stands for. \<open>binary64 x\<close> is the double nearest to
  \<open>x\<close>, a tie going to the even significand: with \<open>2^e \<le> |x| < 2^(e+1)\<close> it is \<open>n * 2^(e-52)\<close>
  for the integer \<open>n\<close> nearest to \<open>|x| / 2^(e-52)\<close>. The numbers of this program stay far
  from the subnormal and the overflow range, which are left out. \<open>bitLength n\<close> is the
  number of binary digits of \<open>n\<close>.
\<close>

fun bitLength :: "nat \<Rightarrow> nat" where
  "bitLength n = (if n = 0 then 0 else Suc (bitLength (n div 2)))"

declare bitLength.simps [simp del]

definition exponentOf :: "real \<Rightarrow> int" where
  "exponentOf x =
     (if 1 \<le> x then int (bitLength (nat \<lfloor>x\<rfloor>)) - 1
      else - int (bitLength (nat \<lceil>1 / x\<rceil> - 1)))"

definition roundTiesToEven :: "real \<Rightarrow> int" where
  "roundTiesToEven m =
     (let f = \<lfloor>m\<rfloor>; d = m - of_int f
      in if d < 1 / 2 then f
         else if 1 / 2 < d then f + 1
         else if even f then f else f + 1)"

definition binary64 :: "real \<Rightarrow> real" where
  "binary64 x =
     (if x = 0 then 0
      else let e = exponentOf \<bar>x\<bar>;
               n = roundTiesToEven (\<bar>x\<bar> * 2 powi (52 - e))
           in sgn x * of_int n * 2 powi (e - 52))"

text \<open>
  The operators \<^verbatim>\<open>/\<close> and \<^verbatim>\<open>*\<close> on numbers. HOL's \<open>x / 0\<close> is \<open>0\<close>, JavaScript's is \<^verbatim>\<open>NaN\<close> or an
  infinity, so \<open>jsDivide\<close> returns \<open>None\<close> for those non-finite results.
\<close>

definition jsDivide :: "real \<Rightarrow> real \<Rightarrow> real option" where
  "jsDivide a b = (if b = 0 then None else Some (binary64 (a / b)))"

definition jsTimes :: "real \<Rightarrow> real \<Rightarrow> real" where
  "jsTimes a b = binary64 (a * b)"

text \<open>\<^verbatim>\<open>Math.round\<close>: the nearest integer, a half rounded up; the result is exact.\<close>

definition mathRound :: "real \<Rightarrow> real" where
  "mathRound x = of_int \<lfloor>x + 1 / 2\<rfloor>"

text \<open>
  Lines 181 to 184 and 194 of \<^verbatim>\<open>analytics.service.ts\<close>: the rate from the two counts,
  then \<^verbatim>\<open>Math.round(completionRate * 100) / 100\<close>.
\<close>

definition completionRateOf :: "nat \<Rightarrow> nat \<Rightarrow> real option" where
  "completionRateOf totalCompletions totalSkips =
     (let totalAttempts = totalCompletions + totalSkips;
          completionRate =
            (if totalAttempts > 0
             then map_option (\<lambda>q. jsTimes q 100)
                    (jsDivide (real totalCompletions) (real totalAttempts))
             else Some 0)
      in Option.bind completionRate (\<lambda>r. jsDivide (mathRound (jsTimes r 100)) 100))"

record HabitStatistics =
  totalCompletions :: nat
  totalSkips :: nat
  totalTime :: int
  completionRate :: "real option"
  currentStreak :: nat
  longestStreak :: nat

text \<open>
  \<open>findHabit\<close> is \<^verbatim>\<open>prisma.habit.findFirst({ where: { id: habitId, userId } })\<close>; the
  \<^verbatim>\<open>include\<close> brings the habit's own completions and skips.
\<close>

definition findHabit :: "string \<Rightarrow> string \<Rightarrow> Habit list \<Rightarrow> Habit option" where
  "findHabit userId hid hs = find (\<lambda>h. habitId h = hid \<and> habitUserId h = userId) hs"

definition getHabitStatistics ::
  "Zone \<Rightarrow> int \<Rightarrow> string \<Rightarrow> string
     \<Rightarrow> Habit list \<Rightarrow> HabitCompletion list \<Rightarrow> HabitSkip list \<Rightarrow> HabitStatistics option" where
  "getHabitStatistics tz now userId hid habitTable completionTable skipTable =
     (case findHabit userId hid habitTable of
        None \<Rightarrow> None
      | Some habit \<Rightarrow>
          (let completions = filter (\<lambda>c. completionHabitId c = hid) completionTable;
               skips = filter (\<lambda>s. skipHabitId s = hid) skipTable
           in Some \<lparr>totalCompletions = length completions,
                    totalSkips = length skips,
                    totalTime = sum_list (map (\<lambda>c. case completionDuration c of
                                                  None \<Rightarrow> 0 | Some d \<Rightarrow> d) completions),
                    completionRate = completionRateOf (length completions) (length skips),
                    currentStreak = calculateStreak tz now completions skips,
                    longestStreak = calculateLongestStreak tz completions skips\<rparr>))"

subsection \<open>The state the services work on\<close>

text \<open>
  The push transport \<^verbatim>\<open>webpush.sendNotification\<close> is a parameter \<open>notify\<close>: it resolves
  (\<open>Sent\<close>) or rejects with an error whose \<^verbatim>\<open>statusCode\<close> may be absent. The calls made to
  it and the lines written to the console are kept in the state, in order.
\<close>

record PushSubscription =
  pushEndpoint :: string
  pushKeys :: Keys

record Payload =
  title :: string
  body :: string
  payloadHabitId :: string

datatype SendResult = Sent | SendError "nat option"

datatype LogLine = DeletedExpired string | ErrorSending string "nat option"

datatype ServiceError =
    HabitNotFound
  | CompletionAlreadyExists
  | SubscriptionNotOwned
  | RecordToDeleteNotFound

record World =
  habits :: "Habit list"
  completions :: "HabitCompletion list"
  skips :: "HabitSkip list"
  subscriptions :: "NotificationSubscription list"
  sent :: "(PushSubscription \<times> Payload) list"
  console :: "LogLine list"

type_synonym Notify = "PushSubscription \<Rightarrow> Payload \<Rightarrow> SendResult"

subsection \<open>\<^verbatim>\<open>sendHabitReminder\<close>\<close>

text \<open>
  \<^verbatim>\<open>prisma.notificationSubscription.delete({ where: { id } })\<close> rejects when no row has
  the id.
\<close>

definition deleteSubscriptionById :: "string \<Rightarrow> World \<Rightarrow> ServiceError + World" where
  "deleteSubscriptionById i w =
     (if \<exists>s\<in>set (subscriptions w). subscriptionId s = i
      then Inr (w\<lparr>subscriptions := filter (\<lambda>s. subscriptionId s \<noteq> i) (subscriptions w)\<rparr>)
      else Inl RecordToDeleteNotFound)"

definition pushSubscriptionOf :: "NotificationSubscription \<Rightarrow> PushSubscription" where
  "pushSubscriptionOf subscription =
     \<lparr>pushEndpoint = endpoint subscription,
      pushKeys = \<lparr>p256dh = p256dh (keys subscription), auth = auth (keys subscription)\<rparr>\<rparr>"

text \<open>
  The \<^verbatim>\<open>for\<close> loop with its \<^verbatim>\<open>try\<close>/\<^verbatim>\<open>catch\<close>. A rejection of the \<^verbatim>\<open>delete\<close> inside the
  \<^verbatim>\<open>catch\<close> block is not caught: it ends the loop and the function.
\<close>

fun sendLoop ::
  "Notify \<Rightarrow> Payload \<Rightarrow> NotificationSubscription list \<Rightarrow> World \<Rightarrow> ServiceError + World" where
  "sendLoop notify payload [] w = Inr w"
| "sendLoop notify payload (subscription # rest) w =
     (let pushSubscription = pushSubscriptionOf subscription;
          w1 = w\<lparr>sent := sent w @ [(pushSubscription, payload)]\<rparr>
      in case notify pushSubscription payload of
           Sent \<Rightarrow> sendLoop notify payload rest w1
         | SendError statusCode \<Rightarrow>
             (if statusCode = Some 410
              then (case deleteSubscriptionById (subscriptionId subscription) w1 of
                      Inl e \<Rightarrow> Inl e
                    | Inr w2 \<Rightarrow>
                        sendLoop notify payload rest
                          (w2\<lparr>console := console w2 @ [DeletedExpired (subscriptionId subscription)]\<rparr>))
              else sendLoop notify payload rest
                     (w1\<lparr>console := console w1 @ [ErrorSending (subscriptionId subscription) statusCode]\<rparr>)))"

definition reminderPayload :: "string \<Rightarrow> string \<Rightarrow> Payload" where
  "reminderPayload hid message = \<lparr>title = ''Habit Reminder'', body = message, payloadHabitId = hid\<rparr>"

definition sendHabitReminder :: "Notify \<Rightarrow> string \<Rightarrow> string \<Rightarrow> World \<Rightarrow> ServiceError + World" where
  "sendHabitReminder notify hid message w =
     (let subs = filter (\<lambda>s. subscriptionHabitId s = Some hid) (subscriptions w)
      in if length subs = 0 then Inr w
         else sendLoop notify (reminderPayload hid message) subs w)"

subsection \<open>\<^verbatim>\<open>checkAndSendReminders\<close>\<close>



text \<open>
  The two functions of date-fns: local midnight of today, and local midnight of the next
  calendar day.
\<close>

definition startOfToday :: "Zone \<Rightarrow> int \<Rightarrow> int" where
  "startOfToday tz now = startOfDay tz now"

definition startOfTomorrow :: "Zone \<Rightarrow> int \<Rightarrow> int" where
  "startOfTomorrow tz now = localMidnight tz (localDay tz now + 1)"





subsection \<open>\<^verbatim>\<open>deleteSubscription\<close> and the \<^verbatim>\<open>unsubscribe\<close> controller\<close>

definition deleteSubscription :: "string \<Rightarrow> string \<Rightarrow> World \<Rightarrow> ServiceError + (bool \<times> World)" where
  "deleteSubscription userId ep w =
     (case find (\<lambda>s. endpoint s = ep) (subscriptions w) of
        None \<Rightarrow> Inr (False, w)
      | Some subscription \<Rightarrow>
          if subscriptionUserId subscription \<noteq> userId then Inl SubscriptionNotOwned
          else Inr (True, w\<lparr>subscriptions := filter (\<lambda>s. endpoint s \<noteq> ep) (subscriptions w)\<rparr>))"

text \<open>
  An HTTP response: the status and, when the body has one, its \<^verbatim>\<open>error\<close> field. An error
  the controller re-throws reaches the error handler, which answers 500 for a plain
  \<^verbatim>\<open>Error\<close>. \<^verbatim>\<open>!x\<close> holds of an absent and of an empty string.
\<close>

record Response =
  status :: nat
  error :: "string option"

definition missing :: "string option \<Rightarrow> bool" where
  "missing x = (case x of None \<Rightarrow> True | Some v \<Rightarrow> v = [])"

definition unsubscribe :: "string option \<Rightarrow> string option \<Rightarrow> World \<Rightarrow> Response \<times> World" where
  "unsubscribe reqUserId bodyEndpoint w =
     (if missing reqUserId then (\<lparr>status = 401, error = Some ''Unauthorized''\<rparr>, w)
      else if missing bodyEndpoint then (\<lparr>status = 400, error = Some ''Bad Request''\<rparr>, w)
      else case deleteSubscription (the reqUserId) (the bodyEndpoint) w of
             Inr (deleted, w') \<Rightarrow>
               if \<not> deleted then (\<lparr>status = 404, error = Some ''Not Found''\<rparr>, w')
               else (\<lparr>status = 204, error = None\<rparr>, w')
           | Inl SubscriptionNotOwned \<Rightarrow> (\<lparr>status = 403, error = Some ''Forbidden''\<rparr>, w)
           | Inl e \<Rightarrow> (\<lparr>status = 500, error = Some ''Internal Server Error''\<rparr>, w))"

subsection \<open>The completion service and its \<^verbatim>\<open>create\<close> controller\<close>

text \<open>
  \<open>inputDate\<close> is the value of \<^verbatim>\<open>new Date(data.date)\<close>. The id of the new row comes from
  Prisma; it is the parameter \<open>newId\<close>.
\<close>

record CompletionInput =
  inputDate :: int
  inputDuration :: "int option"
  inputNotes :: "string option"

definition createCompletion ::
  "string \<Rightarrow> string \<Rightarrow> string \<Rightarrow> CompletionInput \<Rightarrow> World
     \<Rightarrow> ServiceError + (HabitCompletion \<times> World)" where
  "createCompletion newId userId hid data w =
     (case findHabit userId hid (habits w) of
        None \<Rightarrow> Inl HabitNotFound
      | Some habit \<Rightarrow>
          (case find (\<lambda>c. completionHabitId c = hid \<and> completionDate c = inputDate data)
                  (completions w) of
             Some existingCompletion \<Rightarrow> Inl CompletionAlreadyExists
           | None \<Rightarrow>
               (let completion = \<lparr>completionId = newId, completionHabitId = hid,
                                   completionDate = inputDate data,
                                   completionDuration = inputDuration data,
                                   completionNotes = inputNotes data\<rparr>
                in Inr (completion, w\<lparr>completions := completions w @ [completion]\<rparr>))))"

text \<open>
  \<^verbatim>\<open>end.setHours(23, 59, 59, 999)\<close>: the last millisecond of the local day of an instant.
\<close>

definition endOfDay :: "Zone \<Rightarrow> int \<Rightarrow> int" where
  "endOfDay tz t =
     (let wall = localDay tz t * msPerDay + (msPerDay - 1)
      in wall - wallOffset tz wall)"

text \<open>
  The date range ends with the local day of \<open>endDate\<close>; \<^verbatim>\<open>orderBy: { date: 'desc' }\<close> sorts by
  decreasing date.
\<close>

definition getCompletions ::
  "Zone \<Rightarrow> string \<Rightarrow> string \<Rightarrow> int option \<Rightarrow> int option \<Rightarrow> World
     \<Rightarrow> ServiceError + HabitCompletion list" where
  "getCompletions tz userId hid startDate endDate w =
     (case findHabit userId hid (habits w) of
        None \<Rightarrow> Inl HabitNotFound
      | Some habit \<Rightarrow>
          Inr (sort_key (\<lambda>c. - completionDate c)
                 (filter (\<lambda>c. completionHabitId c = hid
                              \<and> (case startDate of None \<Rightarrow> True | Some s \<Rightarrow> s \<le> completionDate c)
                              \<and> (case endDate of None \<Rightarrow> True
                                  | Some e \<Rightarrow> completionDate c \<le> endOfDay tz e))
                    (completions w))))"

definition create ::
  "string \<Rightarrow> string option \<Rightarrow> string \<Rightarrow> CompletionInput \<Rightarrow> World \<Rightarrow> Response \<times> World" where
  "create newId reqUserId hid data w =
     (if missing reqUserId then (\<lparr>status = 401, error = Some ''Unauthorized''\<rparr>, w)
      else case createCompletion newId (the reqUserId) hid data w of
             Inr (completion, w') \<Rightarrow> (\<lparr>status = 201, error = None\<rparr>, w')
           | Inl HabitNotFound \<Rightarrow> (\<lparr>status = 404, error = Some ''Not Found''\<rparr>, w)
           | Inl CompletionAlreadyExists \<Rightarrow> (\<lparr>status = 409, error = Some ''Conflict''\<rparr>, w)
           | Inl e \<Rightarrow> (\<lparr>status = 500, error = Some ''Internal Server Error''\<rparr>, w))"

subsection \<open>Reading the ledger\<close>

text \<open>
  What the statements below say about a ledger: a day \<open>d\<close> has a completion, or a skip, when
  some row's date falls on that local calendar day.
\<close>

definition completedOn :: "Zone \<Rightarrow> HabitCompletion list \<Rightarrow> int \<Rightarrow> bool" where
  "completedOn tz cs d = (\<exists>c\<in>set cs. localDay tz (completionDate c) = d)"

definition skippedOn :: "Zone \<Rightarrow> HabitSkip list \<Rightarrow> int \<Rightarrow> bool" where
  "skippedOn tz ss d = (\<exists>s\<in>set ss. localDay tz (skipDate s) = d)"

text \<open>
  The day the walk of \<^verbatim>\<open>calculateStreak\<close> starts from: the local day of the instant that
  \<^verbatim>\<open>today.setHours(0, 0, 0, 0)\<close> leaves in \<open>today\<close>.
\<close>

definition todayOf :: "Zone \<Rightarrow> int \<Rightarrow> int" where
  "todayOf tz now = localDay tz (startOfDay tz now)"

text \<open>
  A completion dated today, as the reminder check reads it: its date lies between the
  start of today and the start of tomorrow.
\<close>

definition completedToday :: "Zone \<Rightarrow> int \<Rightarrow> HabitCompletion list \<Rightarrow> bool" where
  "completedToday tz now cs =
     (\<exists>c\<in>set cs. startOfToday tz now \<le> completionDate c
                 \<and> completionDate c < startOfTomorrow tz now)"




text \<open>Rows for the worked examples: a completion and a skip of habit \<open>h\<close> at an instant.\<close>

definition completionAt :: "string \<Rightarrow> int \<Rightarrow> HabitCompletion" where
  "completionAt h t = \<lparr>completionId = ''c'', completionHabitId = h, completionDate = t,
     completionDuration = None, completionNotes = None\<rparr>"

definition skipAt :: "string \<Rightarrow> int \<Rightarrow> HabitSkip" where
  "skipAt h t = \<lparr>skipId = ''s'', skipHabitId = h, skipDate = t, skipReason = None\<rparr>"

text \<open>
  The ledger of the example: completions at 00:00 UTC on 2024-01-01 to 2024-01-05 and on
  2024-01-10 to 2024-01-12. 2024-01-01 is day 19723 since the epoch.
\<close>

definition january2024 :: "HabitCompletion list" where
  "january2024 = map (completionAt ''h'')
     [1704067200000, 1704153600000, 1704240000000, 1704326400000, 1704412800000,
      1704844800000, 1704931200000, 1705017600000]"

text \<open>
  Completions at 00:00 UTC on 2024-03-09 to 2024-03-12. In New York they fall on the four
  local days 19790 to 19793 (8 to 11 March), the last after the change to summer time.
\<close>

definition march2024 :: "HabitCompletion list" where
  "march2024 = map (completionAt ''h'')
     [1709942400000, 1710028800000, 1710115200000, 1710201600000]"

text \<open>
  A second ledger: today is day 10 (\<open>now\<close> is 864005000), completions on days 10, 9 and 8,
  and a skip on day 8 as well.
\<close>

definition doubleLedgerCompletions :: "HabitCompletion list" where
  "doubleLedgerCompletions = map (completionAt ''h'') [864000000, 777600777, 691200000]"

definition doubleLedgerSkips :: "HabitSkip list" where
  "doubleLedgerSkips = [skipAt ''h'' 691200500]"

text \<open>A habit of user \<open>u\<close> for the examples, with a reminder at seven in the morning.\<close>

definition exampleHabit :: Habit where
  "exampleHabit = \<lparr>habitId = ''h'', habitUserId = ''u'', habitName = ''Read'',
     reminderTime = Some ''07:00''\<rparr>"

text \<open>
  The console lines one attempt leaves: none when the push is sent, the deletion notice
  when the endpoint is gone (status 410), the error otherwise.
\<close>

definition logLines :: "Notify \<Rightarrow> Payload \<Rightarrow> NotificationSubscription \<Rightarrow> LogLine list" where
  "logLines notify payload s =
     (case notify (pushSubscriptionOf s) payload of
        Sent \<Rightarrow> []
      | SendError statusCode \<Rightarrow>
          if statusCode = Some 410 then [DeletedExpired (subscriptionId s)]
          else [ErrorSending (subscriptionId s) statusCode])"

text \<open>The transport reports the endpoint of a subscription permanently gone.\<close>

definition endpointGone :: "Notify \<Rightarrow> Payload \<Rightarrow> NotificationSubscription \<Rightarrow> bool" where
  "endpointGone notify payload s =
     (notify (pushSubscriptionOf s) payload = SendError (Some 410))"

text \<open>
  A registry for the examples. Three subscriptions of user \<open>u\<close> for habit \<open>h\<close>, and one of
  the same user for no habit in particular. The transport finds the first endpoint
  gone, fails on the third with status 500 and delivers to every other one.
\<close>

definition subscriptionFor ::
  "string \<Rightarrow> string \<Rightarrow> string option \<Rightarrow> string \<Rightarrow> NotificationSubscription" where
  "subscriptionFor i u h e =
     \<lparr>subscriptionId = i, subscriptionUserId = u, subscriptionHabitId = h, endpoint = e,
      keys = \<lparr>p256dh = ''k'', auth = ''a''\<rparr>\<rparr>"

definition flakyNotify :: Notify where
  "flakyNotify ps payload =
     (if pushEndpoint ps = ''e1'' then SendError (Some 410)
      else if pushEndpoint ps = ''e3'' then SendError (Some 500)
      else Sent)"

definition emptyWorld :: World where
  "emptyWorld = \<lparr>habits = [], completions = [], skips = [], subscriptions = [],
     sent = [], console = []\<rparr>"

definition threeSubscriptions :: World where
  "threeSubscriptions = emptyWorld\<lparr>habits := [exampleHabit],
     subscriptions := [subscriptionFor ''s1'' ''u'' (Some ''h'') ''e1'',
                       subscriptionFor ''s2'' ''u'' (Some ''h'') ''e2'',
                       subscriptionFor ''s3'' ''u'' (Some ''h'') ''e3'']\<rparr>"

definition allHabitsSubscription :: World where
  "allHabitsSubscription = emptyWorld\<lparr>habits := [exampleHabit],
     subscriptions := [subscriptionFor ''s4'' ''u'' None ''e4'']\<rparr>"

text \<open>
  A ledger for the examples: habit \<open>h\<close> of user \<open>u\<close> has a completion on day 9, and another
  habit has one on day 10.
\<close>

definition smallLedger :: World where
  "smallLedger = emptyWorld\<lparr>habits := [exampleHabit],
     completions := [completionAt ''h'' 777600000, completionAt ''g'' 864000000]\<rparr>"

definition dayTen :: CompletionInput where
  "dayTen = \<lparr>inputDate = 864000000, inputDuration = Some 30, inputNotes = None\<rparr>"





section \<open>Properties\<close>

subsection \<open>The current streak\<close>

lemma streakLoop_ge: "streak \<le> streakLoop C S d streak"
proof (induction C S d streak rule: streakLoop.induct)
  case (1 C S d streak)
  show ?case
  proof (cases "d \<notin> set S \<and> d \<in> set C")
    case True
    with 1 have "streak + 1 \<le> streakLoop C S (d - 1) (streak + 1)" by simp
    with True show ?thesis by (subst streakLoop.simps) simp
  next
    case False
    then show ?thesis by (subst streakLoop.simps) auto
  qed
qed

lemma streakLoop_run:
  "i < streakLoop C S d streak - streak \<Longrightarrow> d - int i \<in> set C \<and> d - int i \<notin> set S"
proof (induction C S d streak arbitrary: i rule: streakLoop.induct)
  case (1 C S d streak)
  show ?case
  proof (cases "d \<notin> set S \<and> d \<in> set C")
    case True
    then have eq: "streakLoop C S d streak = streakLoop C S (d - 1) (streak + 1)"
      by (subst streakLoop.simps) simp
    show ?thesis
    proof (cases i)
      case 0
      with True show ?thesis by simp
    next
      case (Suc j)
      with "1.prems" eq have "j < streakLoop C S (d - 1) (streak + 1) - (streak + 1)"
        by simp
      with True "1.IH" [of j] have "d - 1 - int j \<in> set C \<and> d - 1 - int j \<notin> set S"
        by simp
      with Suc show ?thesis by (simp add: algebra_simps)
    qed
  next
    case False
    then have "streakLoop C S d streak = streak"
      by (subst streakLoop.simps) auto
    with "1.prems" show ?thesis by simp
  qed
qed

lemma streakLoop_stop:
  "d - int (streakLoop C S d streak - streak) \<in> set S
   \<or> d - int (streakLoop C S d streak - streak) \<notin> set C"
proof (induction C S d streak rule: streakLoop.induct)
  case (1 C S d streak)
  show ?case
  proof (cases "d \<notin> set S \<and> d \<in> set C")
    case True
    then have eq: "streakLoop C S d streak = streakLoop C S (d - 1) (streak + 1)"
      by (subst streakLoop.simps) simp
    have ge: "streak + 1 \<le> streakLoop C S (d - 1) (streak + 1)"
      by (rule streakLoop_ge)
    then have "int (streakLoop C S (d - 1) (streak + 1) - streak)
             = 1 + int (streakLoop C S (d - 1) (streak + 1) - (streak + 1))"
      by simp
    with True "1.IH" eq show ?thesis by (simp add: algebra_simps)
  next
    case False
    then have "streakLoop C S d streak = streak"
      by (subst streakLoop.simps) auto
    with False show ?thesis by auto
  qed
qed





lemma streakLoop_filter:
  "streakLoop (filter (\<lambda>x. x \<notin> set S) C) S d n = streakLoop C S d n"
proof (induction C S d n rule: streakLoop.induct)
  case (1 C S d n)
  show ?case
  proof (cases "d \<notin> set S \<and> d \<in> set C")
    case True
    with 1 show ?thesis
      by (subst streakLoop.simps, subst (2) streakLoop.simps) simp
  next
    case False
    then show ?thesis
      by (subst streakLoop.simps, subst (2) streakLoop.simps) auto
  qed
qed

lemma msPerDay_pos: "0 < msPerDay"
  by (simp add: msPerDay_def)

lemmas day_eval = todayOf_def startOfDay_def localMidnight_def localDay_def msPerDay_def
  utc_def fixedZone_def

text \<open>
  The day the walk starts from is the local day of \<open>now\<close>, under a constant offset and in
  New York alike.
\<close>

lemma startOfDay_fixedZone:
  "startOfDay (fixedZone off) t = localDay (fixedZone off) t * msPerDay - off"
  by (simp add: startOfDay_def localMidnight_def fixedZone_def)

lemma todayOf_fixedZone: "todayOf (fixedZone off) now = localDay (fixedZone off) now"
  using msPerDay_pos by (simp add: todayOf_def startOfDay_fixedZone) (simp add: localDay_def fixedZone_def)

lemma todayOf_newYork: "todayOf newYork now = localDay newYork now"
proof -
  define d where "d = localDay newYork now"
  have "localDay newYork (localMidnight newYork d) = d"
  proof (cases "d \<le> 19792")
    case True
    then have "d * 86400000 < 1710039600000" and "d * 86400000 + 18000000 < 1710054000000"
      by simp_all
    then show ?thesis
      by (simp add: localDay_def localMidnight_def newYork_def msPerDay_def)
  next
    case False
    then have "\<not> d * 86400000 < 1710039600000"
      and "\<not> d * 86400000 + 14400000 < 1710054000000"
      by simp_all
    then show ?thesis
      by (simp add: localDay_def localMidnight_def newYork_def msPerDay_def)
  qed
  then show ?thesis
    by (simp add: todayOf_def startOfDay_def d_def)
qed

lemma completedOn_set:
  "completedOn tz cs d \<longleftrightarrow> d \<in> set (map (\<lambda>c. localDay tz (completionDate c)) cs)"
  by (auto simp: completedOn_def)

lemma skippedOn_set:
  "skippedOn tz ss d \<longleftrightarrow> d \<in> set (map (\<lambda>s. localDay tz (skipDate s)) ss)"
  by (auto simp: skippedOn_def)

lemma calculateStreak_run:
  assumes "i < calculateStreak tz now cs ss"
  shows "completedOn tz cs (todayOf tz now - int i) \<and> \<not> skippedOn tz ss (todayOf tz now - int i)"
proof (cases "cs = []")
  case True
  with assms show ?thesis by (simp add: calculateStreak_def)
next
  case False
  with assms have "i < streakLoop (map (\<lambda>c. localDay tz (completionDate c)) cs)
      (map (\<lambda>s. localDay tz (skipDate s)) ss) (todayOf tz now) 0 - 0"
    by (simp add: calculateStreak_def Let_def todayOf_def)
  from streakLoop_run [OF this] show ?thesis
    by (simp add: completedOn_set skippedOn_set)
qed

lemma calculateStreak_stop:
  "skippedOn tz ss (todayOf tz now - int (calculateStreak tz now cs ss))
   \<or> \<not> completedOn tz cs (todayOf tz now - int (calculateStreak tz now cs ss))"
proof (cases "cs = []")
  case True
  then show ?thesis by (simp add: completedOn_def)
next
  case False
  then have "calculateStreak tz now cs ss = streakLoop (map (\<lambda>c. localDay tz (completionDate c)) cs)
      (map (\<lambda>s. localDay tz (skipDate s)) ss) (todayOf tz now) 0 - 0"
    by (simp add: calculateStreak_def Let_def todayOf_def)
  with streakLoop_stop [of "todayOf tz now" "map (\<lambda>c. localDay tz (completionDate c)) cs"
      "map (\<lambda>s. localDay tz (skipDate s)) ss" 0]
  show ?thesis
    by (simp only: completedOn_set skippedOn_set)
qed




lemma skipped_filter:
  "map (\<lambda>c. localDay tz (completionDate c))
     (filter (\<lambda>c. \<not> skippedOn tz ss (localDay tz (completionDate c))) cs)
   = filter (\<lambda>x. x \<notin> set (map (\<lambda>s. localDay tz (skipDate s)) ss))
       (map (\<lambda>c. localDay tz (completionDate c)) cs)"
  by (induction cs) (simp_all add: skippedOn_set)

lemma streakLoop_no_completions: "streakLoop [] S d n = n"
  by (subst streakLoop.simps) simp

lemma calculateStreak_ignores_skipped_completions:
  "calculateStreak tz now (filter (\<lambda>c. \<not> skippedOn tz ss (localDay tz (completionDate c))) cs) ss
   = calculateStreak tz now cs ss"
proof (cases "cs = []")
  case True
  then show ?thesis by simp
next
  case False
  let ?C = "map (\<lambda>c. localDay tz (completionDate c)) cs"
  let ?S = "map (\<lambda>s. localDay tz (skipDate s)) ss"
  let ?cs' = "filter (\<lambda>c. \<not> skippedOn tz ss (localDay tz (completionDate c))) cs"
  have full: "calculateStreak tz now cs ss = streakLoop ?C ?S (todayOf tz now) 0"
    using False by (simp add: calculateStreak_def Let_def todayOf_def)
  have "calculateStreak tz now ?cs' ss
      = streakLoop (filter (\<lambda>x. x \<notin> set ?S) ?C) ?S (todayOf tz now) 0"
  proof (cases "?cs' = []")
    case True
    then have "filter (\<lambda>x. x \<notin> set ?S) ?C = []"
      using skipped_filter [of tz ss cs] by simp
    with True show ?thesis
      by (simp add: calculateStreak_def streakLoop_no_completions)
  next
    case False
    then show ?thesis
      by (simp add: calculateStreak_def Let_def todayOf_def skipped_filter del: map_filter_simps)
  qed
  with full show ?thesis by (simp only: streakLoop_filter)
qed

text \<open>
  Claim C10. A day \<open>d\<close> that carries both a skip and a completion is never counted: the
  streak never reaches back to \<open>d\<close>; when every day after \<open>d\<close> up to today is counted, the
  walk stops exactly at \<open>d\<close>; and the completions recorded on skipped days can be removed
  from the ledger without changing the streak.
\<close>

theorem calculateStreak_skip_wins:
  "(skippedOn tz ss d \<and> completedOn tz cs d \<and> d \<le> todayOf tz now
      \<longrightarrow> int (calculateStreak tz now cs ss) \<le> todayOf tz now - d)
   \<and> (skippedOn tz ss d \<and> completedOn tz cs d \<and> d \<le> todayOf tz now
       \<and> (\<forall>e. d < e \<and> e \<le> todayOf tz now \<longrightarrow> completedOn tz cs e \<and> \<not> skippedOn tz ss e)
      \<longrightarrow> int (calculateStreak tz now cs ss) = todayOf tz now - d)
   \<and> calculateStreak tz now (filter (\<lambda>c. \<not> skippedOn tz ss (localDay tz (completionDate c))) cs) ss
       = calculateStreak tz now cs ss"
proof (intro conjI impI)
  show le: "int (calculateStreak tz now cs ss) \<le> todayOf tz now - d"
    if h: "skippedOn tz ss d \<and> completedOn tz cs d \<and> d \<le> todayOf tz now"
  proof (rule ccontr)
    assume "\<not> int (calculateStreak tz now cs ss) \<le> todayOf tz now - d"
    with h have "nat (todayOf tz now - d) < calculateStreak tz now cs ss" by linarith
    from calculateStreak_run [OF this] h show False by simp
  qed
  show "int (calculateStreak tz now cs ss) = todayOf tz now - d"
    if h: "skippedOn tz ss d \<and> completedOn tz cs d \<and> d \<le> todayOf tz now
       \<and> (\<forall>e. d < e \<and> e \<le> todayOf tz now \<longrightarrow> completedOn tz cs e \<and> \<not> skippedOn tz ss e)"
  proof (rule ccontr)
    assume ne: "int (calculateStreak tz now cs ss) \<noteq> todayOf tz now - d"
    from h le have "int (calculateStreak tz now cs ss) \<le> todayOf tz now - d" by blast
    with ne have "d < todayOf tz now - int (calculateStreak tz now cs ss)" by linarith
    moreover have "todayOf tz now - int (calculateStreak tz now cs ss) \<le> todayOf tz now" by simp
    ultimately have "completedOn tz cs (todayOf tz now - int (calculateStreak tz now cs ss))
        \<and> \<not> skippedOn tz ss (todayOf tz now - int (calculateStreak tz now cs ss))"
      using h by blast
    with calculateStreak_stop [of tz ss now cs] show False by blast
  qed
  show "calculateStreak tz now (filter (\<lambda>c. \<not> skippedOn tz ss (localDay tz (completionDate c))) cs) ss
       = calculateStreak tz now cs ss"
    by (rule calculateStreak_ignores_skipped_completions)
qed

text \<open>
  An instance: in the second ledger day 8 carries a completion and a skip, days 9 and 10
  are counted, and the streak is 2: the completion of day 8 is not counted.
\<close>

theorem calculateStreak_skip_wins_witness:
  "skippedOn utc doubleLedgerSkips 8 \<and> completedOn utc doubleLedgerCompletions 8
   \<and> 8 \<le> todayOf utc 864005000
   \<and> calculateStreak utc 864005000 doubleLedgerCompletions doubleLedgerSkips = 2"
proof -
  have today: "todayOf utc 864005000 = 10"
    by (simp add: day_eval)
  have s: "skippedOn utc doubleLedgerSkips 8"
    by (simp add: skippedOn_def doubleLedgerSkips_def skipAt_def day_eval)
  have c: "completedOn utc doubleLedgerCompletions 8"
    by (simp add: completedOn_def doubleLedgerCompletions_def completionAt_def day_eval)
  have after: "\<forall>e. 8 < e \<and> e \<le> todayOf utc 864005000 \<longrightarrow>
      completedOn utc doubleLedgerCompletions e \<and> \<not> skippedOn utc doubleLedgerSkips e"
  proof (intro allI impI)
    fix e :: int
    assume "8 < e \<and> e \<le> todayOf utc 864005000"
    with today consider "e = 9" | "e = 10"
      by (cases "e = 9") auto
    then show "completedOn utc doubleLedgerCompletions e \<and> \<not> skippedOn utc doubleLedgerSkips e"
      by cases
        (simp_all add: completedOn_def skippedOn_def doubleLedgerCompletions_def
          doubleLedgerSkips_def completionAt_def skipAt_def day_eval)
  qed
  from calculateStreak_skip_wins [of utc doubleLedgerSkips 8 doubleLedgerCompletions 864005000]
    s c after today
  have "int (calculateStreak utc 864005000 doubleLedgerCompletions doubleLedgerSkips) = 10 - 8"
    by simp
  with s c today show ?thesis by simp
qed

subsection \<open>The longest streak\<close>

text \<open>
  Claim C9. The result of \<^verbatim>\<open>calculateLongestStreak\<close> does not depend on the skips.
\<close>

theorem calculateLongestStreak_ignores_skips:
  "calculateLongestStreak tz cs ss = calculateLongestStreak tz cs ss'"
  by (simp add: calculateLongestStreak_def Let_def)

lemma daysDiff_of_days: "((d * msPerDay - off) - (l * msPerDay - off)) div msPerDay = d - l"
proof -
  have "(d * msPerDay - off) - (l * msPerDay - off) = (d - l) * msPerDay"
    by (simp add: algebra_simps)
  then show ?thesis using msPerDay_pos by simp
qed

lemma longestLoop_step:
  "longestLoop (map (\<lambda>k. k * msPerDay - off) (d # ks)) longest cur (Some (l * msPerDay - off)) =
     (if d - l = 1
      then longestLoop (map (\<lambda>k. k * msPerDay - off) ks) longest (cur + 1) (Some (d * msPerDay - off))
      else longestLoop (map (\<lambda>k. k * msPerDay - off) ks) (max longest cur) 1 (Some (d * msPerDay - off)))"
  by (simp only: list.map longestLoop.simps option.case Let_def daysDiff_of_days)

lemma longestLoop_lower:
  assumes "set ks \<subseteq> D"
    and "\<exists>a. \<forall>i<longest. a + int i \<in> D"
    and "\<forall>i<cur. l - int i \<in> D"
  shows "\<exists>a. \<forall>i<longestLoop (map (\<lambda>k. k * msPerDay - off) ks) longest cur
                    (Some (l * msPerDay - off)). a + int i \<in> D"
  using assms
proof (induction ks arbitrary: l longest cur)
  case Nil
  have "\<forall>i<cur. (l - int cur + 1) + int i \<in> D"
  proof (intro allI impI)
    fix i assume "i < cur"
    then have "cur - 1 - i < cur" and "l - int cur + 1 + int i = l - int (cur - 1 - i)"
      by auto
    with Nil.prems(3) show "l - int cur + 1 + int i \<in> D" by metis
  qed
  with Nil.prems(2) show ?case
    by (cases "longest \<le> cur") (auto simp: max_def)
next
  case (Cons d ks)
  have dD: "d \<in> D" and ksD: "set ks \<subseteq> D" using Cons.prems(1) by auto
  have curRun: "\<exists>a. \<forall>i<cur. a + int i \<in> D"
  proof (intro exI allI impI)
    fix i assume "i < cur"
    then have "cur - 1 - i < cur" and "l - int cur + 1 + int i = l - int (cur - 1 - i)"
      by auto
    with Cons.prems(3) show "l - int cur + 1 + int i \<in> D" by metis
  qed
  show ?case
  proof (cases "d - l = 1")
    case True
    have "\<forall>i<cur + 1. d - int i \<in> D"
    proof (intro allI impI)
      fix i assume i: "i < cur + 1"
      show "d - int i \<in> D"
      proof (cases i)
        case 0
        with dD show ?thesis by simp
      next
        case (Suc j)
        with i have "j < cur" by simp
        with Cons.prems(3) have "l - int j \<in> D" by simp
        moreover have "d - int i = l - int j" using True Suc by simp
        ultimately show ?thesis by simp
      qed
    qed
    from Cons.IH [OF ksD Cons.prems(2) this] True show ?thesis
      by (simp only: longestLoop_step simp_thms if_True)
  next
    case False
    have "\<exists>a. \<forall>i<max longest cur. a + int i \<in> D"
      using Cons.prems(2) curRun by (cases "longest \<le> cur") (auto simp: max_def)
    moreover have "\<forall>i<(1::nat). d - int i \<in> D" using dD by simp
    ultimately show ?thesis
      using Cons.IH [OF ksD, of "max longest cur" 1 d] False
      by (simp only: longestLoop_step simp_thms if_False)
  qed
qed

lemma longestLoop_upper:
  assumes "sorted_wrt (<) (l # ks)"
    and "\<forall>x\<in>D. x \<le> l \<or> x \<in> set ks"
    and "\<forall>a m. (\<forall>i<m. a + int i \<in> D) \<and> a + int m - 1 \<le> l \<longrightarrow> m \<le> max longest cur"
    and "\<forall>a m. (\<forall>i<m. a + int i \<in> D) \<and> a + int m - 1 = l \<longrightarrow> m \<le> cur"
    and "\<forall>i<m. a + int i \<in> D"
  shows "m \<le> longestLoop (map (\<lambda>k. k * msPerDay - off) ks) longest cur (Some (l * msPerDay - off))"
  using assms
proof (induction ks arbitrary: l longest cur)
  case Nil
  show ?case
  proof (cases m)
    case 0
    then show ?thesis by simp
  next
    case (Suc j)
    with Nil.prems(5) have "a + int j \<in> D" by simp
    with Nil.prems(2) have "a + int m - 1 \<le> l" using Suc by auto
    with Nil.prems(3,5) show ?thesis by simp
  qed
next
  case (Cons d ks)
  have ld: "l < d" and sorted': "sorted_wrt (<) (d # ks)"
    using Cons.prems(1) by auto
  have above: "\<forall>x\<in>set ks. d < x" using Cons.prems(1) by auto
  have D': "\<forall>x\<in>D. x \<le> d \<or> x \<in> set ks"
    using Cons.prems(2) ld by fastforce
  show ?case
  proof (cases "d - l = 1")
    case True
    have I2: "\<forall>a m. (\<forall>i<m. a + int i \<in> D) \<and> a + int m - 1 = d \<longrightarrow> m \<le> cur + 1"
    proof (intro allI impI, elim conjE)
      fix a' m'
      assume run: "\<forall>i<m'. a' + int i \<in> D" and e: "a' + int m' - 1 = d"
      show "m' \<le> cur + 1"
      proof (cases m')
        case 0
        then show ?thesis by simp
      next
        case (Suc j)
        have "\<forall>i<j. a' + int i \<in> D" using run Suc by simp
        moreover have "a' + int j - 1 = l" using e True Suc by simp
        ultimately have "j \<le> cur" using Cons.prems(4) by blast
        with Suc show ?thesis by simp
      qed
    qed
    have I1: "\<forall>a m. (\<forall>i<m. a + int i \<in> D) \<and> a + int m - 1 \<le> d \<longrightarrow> m \<le> max longest (cur + 1)"
    proof (intro allI impI, elim conjE)
      fix a' m'
      assume run: "\<forall>i<m'. a' + int i \<in> D" and e: "a' + int m' - 1 \<le> d"
      show "m' \<le> max longest (cur + 1)"
      proof (cases "a' + int m' - 1 = d")
        case True
        with I2 run have "m' \<le> cur + 1" by blast
        then show ?thesis by simp
      next
        case False
        with e \<open>d - l = 1\<close> have "a' + int m' - 1 \<le> l" by simp
        with Cons.prems(3) run have "m' \<le> max longest cur" by blast
        then show ?thesis by auto
      qed
    qed
    from Cons.IH [OF sorted' D' I1 I2 Cons.prems(5)] True show ?thesis
      by (simp only: longestLoop_step simp_thms if_True)
  next
    case False
    with ld have gap: "l + 1 < d" by simp
    have nogap: "\<forall>x\<in>D. \<not> (l < x \<and> x < d)"
      using Cons.prems(2) above by fastforce
    have I2: "\<forall>a m. (\<forall>i<m. a + int i \<in> D) \<and> a + int m - 1 = d \<longrightarrow> m \<le> 1"
    proof (intro allI impI, elim conjE)
      fix a' m'
      assume run: "\<forall>i<m'. a' + int i \<in> D" and e: "a' + int m' - 1 = d"
      show "m' \<le> 1"
      proof (rule ccontr)
        assume "\<not> m' \<le> 1"
        then have "m' - 2 < m'" by simp
        with run have "a' + int (m' - 2) \<in> D" by blast
        moreover have "a' + int (m' - 2) = d - 1" using e \<open>\<not> m' \<le> 1\<close> by simp
        ultimately have "d - 1 \<in> D" by simp
        with nogap gap show False by auto
      qed
    qed
    have I1: "\<forall>a m. (\<forall>i<m. a + int i \<in> D) \<and> a + int m - 1 \<le> d \<longrightarrow> m \<le> max (max longest cur) 1"
    proof (intro allI impI, elim conjE)
      fix a' m'
      assume run: "\<forall>i<m'. a' + int i \<in> D" and e: "a' + int m' - 1 \<le> d"
      show "m' \<le> max (max longest cur) 1"
      proof (cases "a' + int m' - 1 = d")
        case True
        with I2 run have "m' \<le> 1" by blast
        then show ?thesis by simp
      next
        case ne: False
        show ?thesis
        proof (cases m')
          case 0
          then show ?thesis by simp
        next
          case (Suc j)
          with run have "a' + int j \<in> D" by simp
          with nogap have "\<not> (l < a' + int j \<and> a' + int j < d)" by blast
          with e ne Suc have "a' + int m' - 1 \<le> l" by simp
          with Cons.prems(3) run have "m' \<le> max longest cur" by blast
          then show ?thesis by simp
        qed
      qed
    qed
    from Cons.IH [OF sorted' D' I1 I2 Cons.prems(5)] False show ?thesis
      by (simp only: longestLoop_step simp_thms if_False)
  qed
qed

lemma sortedDates_days:
  "sort (remdups (map (\<lambda>c. startOfDay (fixedZone off) (completionDate c)) cs)) =
   map (\<lambda>k. k * msPerDay - off)
     (sorted_list_of_set ((\<lambda>c. localDay (fixedZone off) (completionDate c)) ` set cs))"
proof (rule sorted_distinct_set_unique)
  let ?ks = "sorted_list_of_set ((\<lambda>c. localDay (fixedZone off) (completionDate c)) ` set cs)"
  have strict: "sorted_wrt (<) (map (\<lambda>k. k * msPerDay - off) ?ks)"
    using strict_sorted_list_of_set [of "(\<lambda>c. localDay (fixedZone off) (completionDate c)) ` set cs"]
      msPerDay_pos
    by (simp add: sorted_wrt_map)
  then show "sorted (map (\<lambda>k. k * msPerDay - off) ?ks)"
    and "distinct (map (\<lambda>k. k * msPerDay - off) ?ks)"
    by (simp_all only: strict_sorted_iff)
  show "set (sort (remdups (map (\<lambda>c. startOfDay (fixedZone off) (completionDate c)) cs))) =
        set (map (\<lambda>k. k * msPerDay - off) ?ks)"
    by (auto simp: startOfDay_fixedZone)
qed simp_all

lemma longestStreak_is_longest_run:
  "(\<exists>a. \<forall>i<calculateLongestStreak (fixedZone off) cs ss. completedOn (fixedZone off) cs (a + int i)) \<and>
   (\<forall>a m. (\<forall>i<m. completedOn (fixedZone off) cs (a + int i)) \<longrightarrow> m \<le> calculateLongestStreak (fixedZone off) cs ss)"
proof (cases "cs = []")
  case True
  then show ?thesis
    by (auto simp: calculateLongestStreak_def completedOn_def)
next
  case False
  define D where "D = (\<lambda>c. localDay (fixedZone off) (completionDate c)) ` set cs"
  have mem: "completedOn (fixedZone off) cs d \<longleftrightarrow> d \<in> D" for d
    by (auto simp: completedOn_def D_def)
  have finD: "finite D" and neD: "D \<noteq> {}"
    using False by (simp_all add: D_def)
  then obtain l ks where ks: "sorted_list_of_set D = l # ks"
    by (cases "sorted_list_of_set D") auto
  have strict: "sorted_wrt (<) (l # ks)"
    using strict_sorted_list_of_set [of D] ks by simp
  have setD: "D = set (l # ks)"
    using finD ks by (metis set_sorted_list_of_set)
  have res: "calculateLongestStreak (fixedZone off) cs ss =
      longestLoop (map (\<lambda>k. k * msPerDay - off) ks) 0 1 (Some (l * msPerDay - off))"
    using False ks
    by (simp add: calculateLongestStreak_def Let_def sortedDates_days flip: D_def)
  have lower: "\<exists>a. \<forall>i<calculateLongestStreak (fixedZone off) cs ss. a + int i \<in> D"
    unfolding res
  proof (rule longestLoop_lower)
    show "set ks \<subseteq> D" using setD by auto
    show "\<exists>a. \<forall>i<(0::nat). a + int i \<in> D" by simp
    show "\<forall>i<(1::nat). l - int i \<in> D" using setD by simp
  qed
  have upper: "m \<le> calculateLongestStreak (fixedZone off) cs ss" if run: "\<forall>i<m. a + int i \<in> D" for a m
    unfolding res
  proof (rule longestLoop_upper [OF strict _ _ _ run])
    show "\<forall>x\<in>D. x \<le> l \<or> x \<in> set ks" using setD by auto
    have least: "\<forall>x\<in>D. l \<le> x" using strict setD by auto
    have one: "m' \<le> 1" if r: "\<forall>i<m'. a' + int i \<in> D" and e: "a' + int m' - 1 \<le> l" for a' m'
    proof (cases m')
      case 0
      then show ?thesis by simp
    next
      case (Suc j)
      with r have "a' + int 0 \<in> D" by blast
      with least have "l \<le> a'" by simp
      with e show ?thesis by simp
    qed
    then show "\<forall>a m. (\<forall>i<m. a + int i \<in> D) \<and> a + int m - 1 \<le> l \<longrightarrow> m \<le> max 0 1"
      by auto
    from one show "\<forall>a m. (\<forall>i<m. a + int i \<in> D) \<and> a + int m - 1 = l \<longrightarrow> m \<le> 1"
      by auto
  qed
  from lower upper show ?thesis
    by (simp add: mem)
qed

text \<open>
  Where the offset of the zone is constant the function is right. With \<open>n\<close> its result:
  some \<open>n\<close> consecutive calendar days all have a completion, and every run of \<open>m\<close>
  consecutive calendar days that all have a completion has \<open>m \<le> n\<close>. A single completion
  gives 1 in every zone, and the ledger of January 2024 gives 5.
\<close>

lemma calculateLongestStreak_constant_offset:
  "(\<exists>a. \<forall>i<calculateLongestStreak (fixedZone off) cs ss. completedOn (fixedZone off) cs (a + int i))
   \<and> (\<forall>a m. (\<forall>i<m. completedOn (fixedZone off) cs (a + int i))
          \<longrightarrow> m \<le> calculateLongestStreak (fixedZone off) cs ss)
   \<and> calculateLongestStreak tz [c] ss = 1
   \<and> calculateLongestStreak utc january2024 ss = 5"
proof -
  have "calculateLongestStreak tz [c] ss = 1"
    by (simp add: calculateLongestStreak_def Let_def)
  moreover have "calculateLongestStreak utc january2024 ss = 5"
    by (simp add: calculateLongestStreak_def Let_def january2024_def completionAt_def day_eval)
  ultimately show ?thesis
    using longestStreak_is_longest_run [of off cs ss] by simp
qed

text \<open>
  Claim C2 fails in a zone with summer time. The four completions of March 2024 fall on
  four consecutive local days in New York, and the function returns 3: the local
  midnights of 10 and 11 March are 23 hours apart, the quotient by 86400000 rounds down
  to 0, and the run is cut. The same rows give 4 on a server in UTC.
\<close>

theorem calculateLongestStreak_spring_forward:
  "calculateLongestStreak newYork march2024 [] = 3
   \<and> completedOn newYork march2024 19790 \<and> completedOn newYork march2024 19791
   \<and> completedOn newYork march2024 19792 \<and> completedOn newYork march2024 19793
   \<and> map (\<lambda>c. startOfDay newYork (completionDate c)) march2024
       = [1709874000000, 1709960400000, 1710046800000, 1710129600000]
   \<and> calculateLongestStreak utc march2024 [] = 4"
  by (simp add: calculateLongestStreak_def Let_def march2024_def completionAt_def completedOn_def
      newYork_def day_eval)

subsection \<open>The completion rate\<close>

text \<open>
  The double model: \<open>bitLength\<close> brackets a number between two powers of two, so
  \<open>binary64 x\<close> is within \<open>x / 2^53\<close> of a positive \<open>x\<close>.
\<close>

lemma bitLength_0: "bitLength 0 = 0"
  by (simp add: bitLength.simps)

lemma bitLength_pos: "0 < n \<Longrightarrow> bitLength n = Suc (bitLength (n div 2))"
  by (subst bitLength.simps) simp

lemma bitLength_bounds: "0 < n \<Longrightarrow> 2 ^ (bitLength n - 1) \<le> n \<and> n < 2 ^ bitLength n"
proof (induction n rule: bitLength.induct)
  case (1 n)
  show ?case
  proof (cases "n div 2 = 0")
    case True
    with "1.prems" have "n = 1" by (cases n) auto
    then show ?thesis
      by (simp add: bitLength_pos bitLength_0)
  next
    case False
    with 1 have IH: "2 ^ (bitLength (n div 2) - 1) \<le> n div 2" "n div 2 < 2 ^ bitLength (n div 2)"
      by auto
    from False have "0 < bitLength (n div 2)"
      by (simp add: bitLength_pos)
    then obtain j where j: "bitLength (n div 2) = Suc j"
      by (cases "bitLength (n div 2)") auto
    from IH j have "2 * 2 ^ j \<le> 2 * (n div 2)" "n div 2 + 1 \<le> 2 * 2 ^ j"
      by simp_all
    then have "2 ^ Suc j \<le> n" "n < 2 ^ Suc (Suc j)"
      by simp_all
    with "1.prems" j show ?thesis
      by (simp add: bitLength_pos)
  qed
qed

lemma bitLength_pred:
  assumes "2 \<le> c"
  shows "c \<le> 2 ^ bitLength (c - 1) \<and> 2 ^ (bitLength (c - 1) - 1) < c \<and> 0 < bitLength (c - 1)"
proof -
  from assms have pos: "0 < c - 1" by simp
  from bitLength_bounds [OF pos] have "2 ^ (bitLength (c - 1) - 1) \<le> c - 1"
    and "c - 1 < 2 ^ bitLength (c - 1)" by simp_all
  moreover from pos have "0 < bitLength (c - 1)"
    by (simp add: bitLength_pos)
  ultimately show ?thesis using assms by auto
qed

lemma exponentOf_bounds:
  assumes "0 < x"
  shows "2 powi exponentOf x \<le> x \<and> x < 2 powi (exponentOf x + 1)"
proof (cases "1 \<le> x")
  case True
  define n where "n = nat \<lfloor>x\<rfloor>"
  from True have fl: "1 \<le> \<lfloor>x\<rfloor>"
    by simp
  then have rn: "real n = of_int \<lfloor>x\<rfloor>"
    by (simp add: n_def)
  have n: "0 < n" "real n \<le> x" "x < real n + 1"
    using fl unfolding rn by (simp add: n_def, linarith, linarith)
  from bitLength_bounds [OF n(1)] obtain j where j: "bitLength n = Suc j"
    and lo: "2 ^ j \<le> n" and hi: "n < 2 ^ Suc j"
    by (cases "bitLength n") (auto simp: bitLength_pos n(1))
  have e: "exponentOf x = int j"
    using True j by (simp add: exponentOf_def n_def)
  from lo have "real (2 ^ j) \<le> real n"
    by (simp only: of_nat_le_iff)
  then have "(2::real) ^ j \<le> real n"
    by simp
  moreover from hi have "n + 1 \<le> 2 ^ Suc j" by simp
  then have "real (n + 1) \<le> real (2 ^ Suc j)"
    by (simp only: of_nat_le_iff)
  then have "real n + 1 \<le> 2 ^ Suc j"
    by simp
  moreover have "int j + 1 = int (Suc j)" by simp
  ultimately show ?thesis
    using n unfolding e by (simp only: power_int_of_nat) linarith
next
  case False
  with assms have x: "0 < x" "x < 1" by simp_all
  define c where "c = nat \<lceil>1 / x\<rceil>"
  from x have big: "1 < 1 / x" by simp
  then have cl: "2 \<le> \<lceil>1 / x\<rceil>"
    by linarith
  then have rc: "real c = of_int \<lceil>1 / x\<rceil>"
    by (simp add: c_def)
  have ceil: "1 / x \<le> real c" "real c < 1 / x + 1" "2 \<le> c"
    using cl unfolding rc c_def by linarith+
  from bitLength_pred [OF ceil(3)] obtain j where j: "bitLength (c - 1) = Suc j"
    and lo: "2 ^ j < c" and hi: "c \<le> 2 ^ Suc j"
    by (cases "bitLength (c - 1)") auto
  have e: "exponentOf x = - int (Suc j)"
    using False j by (simp add: exponentOf_def c_def)
  from hi have "real c \<le> real (2 ^ Suc j)"
    by (simp only: of_nat_le_iff)
  then have "real c \<le> 2 ^ Suc j"
    by simp
  with ceil(1) have "1 / x \<le> 2 ^ Suc j" by linarith
  with x have a: "1 / 2 ^ Suc j \<le> x"
    by (simp add: field_simps)
  from lo have "2 ^ j + 1 \<le> c" by simp
  then have "real (2 ^ j + 1) \<le> real c"
    by (simp only: of_nat_le_iff)
  then have "(2::real) ^ j + 1 \<le> real c"
    by simp
  with ceil(2) have "2 ^ j < 1 / x" by linarith
  with x have b: "x < 1 / 2 ^ j"
    by (simp add: field_simps)
  have "(2::real) powi (- int (Suc j)) = 1 / 2 ^ Suc j"
    by (simp only: power_int_minus power_int_of_nat inverse_eq_divide)
  moreover have "- int (Suc j) + 1 = - int j"
    by simp
  then have "(2::real) powi (- int (Suc j) + 1) = 1 / 2 ^ j"
    by (simp only: power_int_minus power_int_of_nat inverse_eq_divide)
  ultimately show ?thesis
    using a b unfolding e by simp
qed

lemma roundTiesToEven_near: "\<bar>of_int (roundTiesToEven m) - m\<bar> \<le> 1 / 2"
proof -
  have "of_int \<lfloor>m\<rfloor> \<le> m" "m < of_int \<lfloor>m\<rfloor> + 1"
    by linarith+
  then show ?thesis
    by (auto simp: roundTiesToEven_def Let_def)
qed

lemma binary64_error:
  assumes "0 < x"
  shows "\<bar>binary64 x - x\<bar> \<le> x / 2 ^ 53"
proof -
  define e where "e = exponentOf x"
  define m where "m = x * 2 powi (52 - e)"
  define n where "n = roundTiesToEven m"
  from exponentOf_bounds [OF assms] have lo: "2 powi e \<le> x"
    by (simp add: e_def)
  have scale: "(2::real) powi (52 - e) * 2 powi (e - 52) = 1"
    by (simp add: power_int_add [symmetric])
  have b: "binary64 x = of_int n * 2 powi (e - 52)"
    using assms by (simp add: binary64_def Let_def e_def m_def n_def)
  have xm: "x = m * 2 powi (e - 52)"
    using scale by (simp add: m_def mult.assoc)
  have "binary64 x - x = of_int n * 2 powi (e - 52) - m * 2 powi (e - 52)"
    by (simp only: b xm [symmetric])
  then have "binary64 x - x = (of_int n - m) * 2 powi (e - 52)"
    by (simp only: left_diff_distrib)
  then have "\<bar>binary64 x - x\<bar> = \<bar>of_int n - m\<bar> * 2 powi (e - 52)"
    by (simp add: abs_mult)
  also have "\<dots> \<le> 1 / 2 * 2 powi (e - 52)"
    using roundTiesToEven_near [of m] by (simp add: n_def)
  also have "1 / 2 * (2::real) powi (e - 52) = 2 powi e / 2 ^ 53"
  proof -
    have "(2::real) powi e = 2 powi (e - 52) * 2 powi 52"
      using power_int_add [of "2::real" "e - 52" 52] by simp
    then show ?thesis by simp
  qed
  also have "\<dots> \<le> x / 2 ^ 53"
    using lo by (simp add: divide_right_mono)
  finally show ?thesis .
qed

lemma binary64_zero: "binary64 0 = 0"
  by (simp add: binary64_def)

lemma binary64_pos:
  assumes "0 < x"
  shows "0 < binary64 x"
proof -
  have "x / 2 ^ 53 < x"
    using assms by (simp add: field_simps)
  with binary64_error [OF assms] show ?thesis
    by linarith
qed

lemma percent_error:
  assumes a: "0 < a" "a \<le> 1"
  shows "\<bar>jsTimes (jsTimes (binary64 a) 100) 100 - 10000 * a\<bar> \<le> 40300 / 2 ^ 53"
proof -
  define u :: real where "u = 1 / 2 ^ 53"
  define y1 where "y1 = binary64 a"
  define y2 where "y2 = binary64 (y1 * 100)"
  define y3 where "y3 = binary64 (y2 * 100)"
  have u: "0 < u" "u \<le> 1 / 100"
    by (simp_all add: u_def)
  have "a / 2 ^ 53 \<le> 1 / 2 ^ 53"
    using a by (intro divide_right_mono) simp_all
  with binary64_error [OF a(1)] have e1: "\<bar>y1 - a\<bar> \<le> u"
    by (simp add: y1_def u_def)
  have p1: "0 < y1"
    using binary64_pos [OF a(1)] by (simp add: y1_def)
  from e1 a u have b1: "y1 \<le> 2"
    by linarith
  have "\<bar>y2 - y1 * 100\<bar> \<le> y1 * 100 / 2 ^ 53"
    using binary64_error [of "y1 * 100"] p1 by (simp add: y2_def)
  also have "\<dots> \<le> 2 * 100 / 2 ^ 53"
    using b1 by (intro divide_right_mono) simp_all
  finally have e2: "\<bar>y2 - y1 * 100\<bar> \<le> 200 * u"
    by (simp add: u_def)
  have p2: "0 < y2"
    using binary64_pos [of "y1 * 100"] p1 by (simp add: y2_def)
  from e1 e2 have e2': "\<bar>y2 - 100 * a\<bar> \<le> 300 * u"
    by linarith
  with a u have b2: "y2 \<le> 103"
    by linarith
  have "\<bar>y3 - y2 * 100\<bar> \<le> y2 * 100 / 2 ^ 53"
    using binary64_error [of "y2 * 100"] p2 by (simp add: y3_def)
  also have "\<dots> \<le> 103 * 100 / 2 ^ 53"
    using b2 by (intro divide_right_mono) simp_all
  finally have e3: "\<bar>y3 - y2 * 100\<bar> \<le> 10300 * u"
    by (simp add: u_def)
  from e2' e3 have "\<bar>y3 - 10000 * a\<bar> \<le> 40300 * u"
    by linarith
  then show ?thesis
    by (simp add: u_def y3_def y2_def y1_def jsTimes_def)
qed

lemma nearest_hundredth:
  assumes ta: "0 < ta" "ta < 2 ^ 33"
    and y: "\<bar>y - 10000 * real tc / real ta\<bar> \<le> 40300 / 2 ^ 53"
  shows "\<bar>of_int \<lfloor>y + 1 / 2\<rfloor> - 10000 * real tc / real ta\<bar> \<le> 1 / 2"
proof -
  define k where "k = \<lfloor>y + 1 / 2\<rfloor>"
  define E where "E = 10000 * real tc / real ta"
  define N where "N = (2 * k - 1) * int ta - 20000 * int tc"
  define N' where "N' = 20000 * int tc - (2 * k + 1) * int ta"
  have rta: "0 < real ta" "real ta < 2 ^ 33"
    using ta by (simp_all add: of_nat_less_numeral_power_cancel_iff)
  have k: "of_int k \<le> y + 1 / 2" "y + 1 / 2 < of_int k + 1"
    unfolding k_def by linarith+
  have gap: "40300 / 2 ^ 53 < 1 / (2 * real ta)"
  proof -
    have "40300 * (2 * real ta) < 40300 * (2 * 2 ^ 33)"
      using rta by simp
    also have "\<dots> < (2::real) ^ 53"
      by simp
    finally show ?thesis
      using rta by (simp add: field_simps)
  qed
  have lower: "of_int k - E \<le> 1 / 2"
  proof (rule ccontr)
    assume "\<not> of_int k - E \<le> 1 / 2"
    then have pos: "0 < (of_int k - 1 / 2) - E" by simp
    have eq: "(of_int k - 1 / 2) - E = of_int N / (2 * real ta)"
      using rta by (simp add: N_def E_def field_simps)
    with pos rta have "0 < (of_int N :: real)"
      by (simp add: zero_less_divide_iff)
    then have "1 \<le> N" by simp
    then have "(1::real) \<le> of_int N"
      by (metis of_int_1_le_iff)
    then have "1 / (2 * real ta) \<le> of_int N / (2 * real ta)"
      using rta by (intro divide_right_mono) simp_all
    with eq gap have "40300 / 2 ^ 53 < (of_int k - 1 / 2) - E" by linarith
    moreover have "(of_int k - 1 / 2) - E \<le> y - E"
      using k by linarith
    ultimately show False
      using y unfolding E_def by linarith
  qed
  have upper: "E - of_int k \<le> 1 / 2"
  proof (rule ccontr)
    assume "\<not> E - of_int k \<le> 1 / 2"
    then have pos: "0 < E - (of_int k + 1 / 2)" by simp
    have eq: "E - (of_int k + 1 / 2) = of_int N' / (2 * real ta)"
      using rta by (simp add: N'_def E_def field_simps)
    with pos rta have "0 < (of_int N' :: real)"
      by (simp add: zero_less_divide_iff)
    then have "1 \<le> N'" by simp
    then have "(1::real) \<le> of_int N'"
      by (metis of_int_1_le_iff)
    then have "1 / (2 * real ta) \<le> of_int N' / (2 * real ta)"
      using rta by (intro divide_right_mono) simp_all
    with eq gap have "40300 / 2 ^ 53 < E - (of_int k + 1 / 2)" by linarith
    moreover have "E - (of_int k + 1 / 2) \<le> E - y"
      using k by linarith
    ultimately show False
      using y unfolding E_def by linarith
  qed
  from lower upper show ?thesis
    unfolding k_def E_def by linarith
qed

lemma completionRateOf_zero: "completionRateOf 0 0 = Some 0"
  by (simp add: completionRateOf_def jsDivide_def jsTimes_def mathRound_def binary64_zero)

lemma completionRateOf_positive:
  assumes "0 < tc + ts"
  shows "completionRateOf tc ts =
     Some (binary64 (of_int \<lfloor>jsTimes (jsTimes (binary64 (real tc / real (tc + ts))) 100) 100
                            + 1 / 2\<rfloor> / 100))"
proof -
  from assms have "0 < real (tc + ts)"
    by (simp only: of_nat_0_less_iff)
  then have "real (tc + ts) \<noteq> 0"
    by (metis less_irrefl)
  with assms show ?thesis
    by (simp add: completionRateOf_def Let_def jsDivide_def mathRound_def del: of_nat_add)
qed

lemma completionRateOf_nearest:
  assumes "0 < tc + ts" and "tc + ts < 2 ^ 33"
  shows "\<exists>k::int. completionRateOf tc ts = Some (binary64 (of_int k / 100))
     \<and> \<bar>of_int k / 100 - real tc / real (tc + ts) * 100\<bar> \<le> 1 / 200"
proof -
  define a where "a = real tc / real (tc + ts)"
  define y where "y = jsTimes (jsTimes (binary64 a) 100) 100"
  have ta: "0 < real (tc + ts)"
    using assms(1) by (simp only: of_nat_0_less_iff)
  have err: "\<bar>y - 10000 * real tc / real (tc + ts)\<bar> \<le> 40300 / 2 ^ 53"
  proof (cases "tc = 0")
    case True
    then show ?thesis
      by (simp add: y_def a_def jsTimes_def binary64_zero)
  next
    case False
    then have "0 < a"
      using ta by (simp add: a_def del: of_nat_add)
    moreover have "a \<le> 1"
      using ta by (simp add: a_def del: of_nat_add)
    ultimately have "\<bar>y - 10000 * a\<bar> \<le> 40300 / 2 ^ 53"
      unfolding y_def by (rule percent_error)
    then show ?thesis
      by (simp add: a_def)
  qed
  from nearest_hundredth [OF assms err]
  have "\<bar>of_int \<lfloor>y + 1 / 2\<rfloor> - 10000 * real tc / real (tc + ts)\<bar> \<le> 1 / 2" .
  then have "\<bar>of_int \<lfloor>y + 1 / 2\<rfloor> / 100 - real tc / real (tc + ts) * 100\<bar> \<le> 1 / 200"
    by (simp add: field_simps abs_le_iff del: of_nat_add)
  moreover have "completionRateOf tc ts = Some (binary64 (of_int \<lfloor>y + 1 / 2\<rfloor> / 100))"
    using completionRateOf_positive [OF assms(1)] by (simp add: y_def a_def)
  ultimately show ?thesis
    by blast
qed

text \<open>The doubles of the two examples, one operation at a time.\<close>

lemmas binary64_eval = binary64_def exponentOf_def roundTiesToEven_def Let_def
  bitLength_0 bitLength_pos

lemma third_quotient: "binary64 (1 / 3) = 6004799503160661 / 18014398509481984"
  by (simp add: binary64_eval)

lemma third_percent:
  "jsTimes (6004799503160661 / 18014398509481984) 100 = 2345624805922133 / 70368744177664"
  by (simp add: jsTimes_def binary64_eval)

lemma third_scaled:
  "jsTimes (2345624805922133 / 70368744177664) 100 = 3665038759253333 / 1099511627776"
  by (simp add: jsTimes_def binary64_eval)

lemma third_rounded: "mathRound (3665038759253333 / 1099511627776) = 3333"
  by (simp add: mathRound_def)

lemma completionRateOf_1_2: "completionRateOf 1 2 = Some (binary64 (3333 / 100))"
  by (simp add: completionRateOf_def jsDivide_def third_quotient third_percent third_scaled
      third_rounded)

lemma tie_quotient: "binary64 (23 / 160) = 2589569785738035 / 18014398509481984"
  by (simp add: binary64_eval)

lemma tie_percent:
  "jsTimes (2589569785738035 / 18014398509481984) 100 = 8092405580431359 / 562949953421312"
  by (simp add: jsTimes_def binary64_eval)

lemma tie_scaled:
  "jsTimes (8092405580431359 / 562949953421312) 100 = 6322191859711999 / 4398046511104"
  by (simp add: jsTimes_def binary64_eval)

lemma tie_rounded: "mathRound (6322191859711999 / 4398046511104) = 1437"
  by (simp add: mathRound_def)

lemma completionRateOf_23_137: "completionRateOf 23 137 = Some (binary64 (1437 / 100))"
  by (simp add: completionRateOf_def jsDivide_def tie_quotient tie_percent tie_scaled
      tie_rounded)

lemma binary64_1437: "binary64 (1437 / 100) = 8089590830664253 / 562949953421312"
  by (simp add: binary64_eval)

lemma binary64_1438: "binary64 (1438 / 100) = 8095220330198467 / 562949953421312"
  by (simp add: binary64_eval)

lemma binary64_3333: "binary64 (3333 / 100) = 2345390243441541 / 70368744177664"
  by (simp add: binary64_eval)

lemma getHabitStatistics_found:
  assumes "findHabit uid hid hs = Some h"
  shows "getHabitStatistics tz now uid hid hs cs ss =
     Some \<lparr>totalCompletions = length (filter (\<lambda>c. completionHabitId c = hid) cs),
           totalSkips = length (filter (\<lambda>s. skipHabitId s = hid) ss),
           totalTime = sum_list (map (\<lambda>c. case completionDuration c of
                                         None \<Rightarrow> 0 | Some d \<Rightarrow> d)
                                   (filter (\<lambda>c. completionHabitId c = hid) cs)),
           completionRate = completionRateOf
               (length (filter (\<lambda>c. completionHabitId c = hid) cs))
               (length (filter (\<lambda>s. skipHabitId s = hid) ss)),
           currentStreak = calculateStreak tz now
               (filter (\<lambda>c. completionHabitId c = hid) cs)
               (filter (\<lambda>s. skipHabitId s = hid) ss),
           longestStreak = calculateLongestStreak tz
               (filter (\<lambda>c. completionHabitId c = hid) cs)
               (filter (\<lambda>s. skipHabitId s = hid) ss)\<rparr>"
  using assms by (simp add: getHabitStatistics_def Let_def)

lemma completionRateOf_defined: "completionRateOf tc ts \<noteq> None"
proof (cases "tc + ts = 0")
  case True
  then show ?thesis
    by (simp add: completionRateOf_zero)
next
  case False
  then have "0 < tc + ts"
    by simp
  then show ?thesis
    by (simp only: completionRateOf_positive) simp
qed

text \<open>
  Claim C3, as amended. For all counts \<open>tc\<close> of completions and \<open>ts\<close> of skips: when
  \<open>tc + ts = 0\<close> the rate is 0; when \<open>tc + ts > 0\<close> (and below \<open>2^33\<close>, as the sum of two array
  lengths is) the rate is the double nearest to \<open>k / 100\<close> for an integer \<open>k\<close> between 0 and
  10000, and \<open>k / 100\<close> is within 0.005 of \<open>tc / (tc + ts) * 100\<close>, either neighbour
  being possible when the percentage lies half-way between two hundredths; the rate is always
  a finite number, no division by zero takes place; and \<^verbatim>\<open>getHabitStatistics\<close> returns
  \<^verbatim>\<open>null\<close> for a habit that is not the user's, and otherwise the number of the habit's
  completions, the number of its skips, and this rate of the two.
\<close>

theorem completionRate_rounded:
  "(tc + ts = 0 \<longrightarrow> completionRateOf tc ts = Some 0)
   \<and> (0 < tc + ts \<and> tc + ts < 2 ^ 33 \<longrightarrow>
        (\<exists>k::int. completionRateOf tc ts = Some (binary64 (of_int k / 100))
           \<and> 0 \<le> k \<and> k \<le> 10000
           \<and> \<bar>of_int k / 100 - real tc / real (tc + ts) * 100\<bar> \<le> 1 / 200))
   \<and> completionRateOf tc ts \<noteq> None
   \<and> (findHabit uid hid hs = None \<longrightarrow> getHabitStatistics tz now uid hid hs cs ss = None)
   \<and> (findHabit uid hid hs \<noteq> None \<longrightarrow>
        (\<exists>st. getHabitStatistics tz now uid hid hs cs ss = Some st
           \<and> totalCompletions st = length (filter (\<lambda>c. completionHabitId c = hid) cs)
           \<and> totalSkips st = length (filter (\<lambda>s. skipHabitId s = hid) ss)
           \<and> completionRate st = completionRateOf (totalCompletions st) (totalSkips st)))"
proof (intro conjI impI)
  show "completionRateOf tc ts = Some 0" if "tc + ts = 0"
    using that by (simp add: completionRateOf_zero)
  show "\<exists>k::int. completionRateOf tc ts = Some (binary64 (of_int k / 100))
           \<and> 0 \<le> k \<and> k \<le> 10000
           \<and> \<bar>of_int k / 100 - real tc / real (tc + ts) * 100\<bar> \<le> 1 / 200"
    if bounds: "0 < tc + ts \<and> tc + ts < 2 ^ 33"
  proof -
    from bounds have pos: "0 < tc + ts" and small: "tc + ts < 2 ^ 33"
      by simp_all
    from completionRateOf_nearest [OF pos small] obtain k :: int
      where r: "completionRateOf tc ts = Some (binary64 (of_int k / 100))"
        and near: "\<bar>of_int k / 100 - real tc / real (tc + ts) * 100\<bar> \<le> 1 / 200"
      by (elim exE conjE)
    define a where "a = real tc / real (tc + ts)"
    have ta: "0 < real (tc + ts)"
      using pos by (simp only: of_nat_0_less_iff)
    have "real tc \<le> real (tc + ts)"
      by (simp only: of_nat_le_iff)
    with ta have "a \<le> 1"
      unfolding a_def by (simp only: divide_le_eq_1_pos)
    moreover have "0 \<le> a"
      unfolding a_def using ta by (simp del: of_nat_add)
    moreover from near have "\<bar>of_int k / 100 - a * 100\<bar> \<le> 1 / 200"
      by (simp only: a_def)
    ultimately have "- 1 < (of_int k :: real)" "(of_int k :: real) < 10001"
      by (simp_all only: abs_le_iff) linarith+
    then have "- 1 < k" "k < 10001"
      by linarith+
    then have "0 \<le> k" "k \<le> 10000"
      by simp_all
    with r near show ?thesis
      by (intro exI [of _ k] conjI)
  qed
  show "completionRateOf tc ts \<noteq> None"
    by (rule completionRateOf_defined)
  show "getHabitStatistics tz now uid hid hs cs ss = None" if "findHabit uid hid hs = None"
    using that by (simp add: getHabitStatistics_def)
  show "\<exists>st. getHabitStatistics tz now uid hid hs cs ss = Some st
           \<and> totalCompletions st = length (filter (\<lambda>c. completionHabitId c = hid) cs)
           \<and> totalSkips st = length (filter (\<lambda>s. skipHabitId s = hid) ss)
           \<and> completionRate st = completionRateOf (totalCompletions st) (totalSkips st)"
    if "findHabit uid hid hs \<noteq> None"
  proof -
    from that obtain h where "findHabit uid hid hs = Some h"
      by (cases "findHabit uid hid hs") simp_all
    then show ?thesis
      by (simp add: getHabitStatistics_found)
  qed
qed

text \<open>
  An instance: no records give 0; one completion and two skips give the double nearest to
  33.33, which is within 0.005 of 100/3; a stranger gets \<^verbatim>\<open>null\<close>, and the owner of a
  habit with one completion and two skips the counts 1 and 2 and that rate.
\<close>

theorem completionRate_rounded_witness:
  "completionRateOf 0 0 = Some 0
   \<and> completionRateOf 1 2 = Some (binary64 (3333 / 100))
   \<and> binary64 (3333 / 100) = 2345390243441541 / 70368744177664
   \<and> (\<exists>k::int. completionRateOf 1 2 = Some (binary64 (of_int k / 100))
           \<and> 0 \<le> k \<and> k \<le> 10000
           \<and> \<bar>of_int k / 100 - real 1 / real (1 + 2) * 100\<bar> \<le> 1 / 200)
   \<and> completionRateOf 1 2 \<noteq> None
   \<and> getHabitStatistics utc 0 ''v'' ''h'' [exampleHabit] [completionAt ''h'' 0]
         [skipAt ''h'' 86400000, skipAt ''h'' 172800000] = None
   \<and> (\<exists>st. getHabitStatistics utc 0 ''u'' ''h'' [exampleHabit]
              [completionAt ''h'' 0, completionAt ''g'' 0]
              [skipAt ''h'' 86400000, skipAt ''h'' 172800000] = Some st
         \<and> totalCompletions st = 1 \<and> totalSkips st = 2
         \<and> completionRate st = Some (binary64 (3333 / 100)))"
proof -
  have found: "findHabit ''u'' ''h'' [exampleHabit] \<noteq> None"
    by (simp add: findHabit_def exampleHabit_def)
  have stranger: "findHabit ''v'' ''h'' [exampleHabit] = None"
    by (simp add: findHabit_def exampleHabit_def)
  have small: "0 < (1::nat) + 2 \<and> (1::nat) + 2 < 2 ^ 33"
    by simp
  note zero = completionRate_rounded [of 0 0 "''v''" "''h''" "[exampleHabit]" utc 0
      "[completionAt ''h'' 0]" "[skipAt ''h'' 86400000, skipAt ''h'' 172800000]"]
  note third = completionRate_rounded [of 1 2 "''u''" "''h''" "[exampleHabit]" utc 0
      "[completionAt ''h'' 0, completionAt ''g'' 0]"
      "[skipAt ''h'' 86400000, skipAt ''h'' 172800000]"]
  from zero [THEN conjunct1] have a: "completionRateOf 0 0 = Some 0"
    by simp
  note b = zero [THEN conjunct2, THEN conjunct2, THEN conjunct2, THEN conjunct1, THEN mp,
      OF stranger]
  note c = third [THEN conjunct2, THEN conjunct1, THEN mp, OF small]
  note d = third [THEN conjunct2, THEN conjunct2, THEN conjunct1]
  from third [THEN conjunct2, THEN conjunct2, THEN conjunct2, THEN conjunct2, THEN mp,
      OF found]
  obtain st where st: "getHabitStatistics utc 0 ''u'' ''h'' [exampleHabit]
              [completionAt ''h'' 0, completionAt ''g'' 0]
              [skipAt ''h'' 86400000, skipAt ''h'' 172800000] = Some st"
    and tc: "totalCompletions st
       = length (filter (\<lambda>c. completionHabitId c = ''h'')
           [completionAt ''h'' 0, completionAt ''g'' 0])"
    and ts: "totalSkips st
       = length (filter (\<lambda>s. skipHabitId s = ''h'')
           [skipAt ''h'' 86400000, skipAt ''h'' 172800000])"
    and rate: "completionRate st = completionRateOf (totalCompletions st) (totalSkips st)"
    by (elim conjE exE)
  from tc have tc1: "totalCompletions st = 1"
    by (simp add: completionAt_def)
  from ts have ts2: "totalSkips st = 2"
    by (simp add: skipAt_def)
  from rate have r: "completionRate st = Some (binary64 (3333 / 100))"
    unfolding tc1 ts2 completionRateOf_1_2 .
  from st tc1 ts2 r have e: "\<exists>st. getHabitStatistics utc 0 ''u'' ''h'' [exampleHabit]
              [completionAt ''h'' 0, completionAt ''g'' 0]
              [skipAt ''h'' 86400000, skipAt ''h'' 172800000] = Some st
         \<and> totalCompletions st = 1 \<and> totalSkips st = 2
         \<and> completionRate st = Some (binary64 (3333 / 100))"
    by (intro exI [of _ st] conjI)
  from a completionRateOf_1_2 binary64_3333 c d b e show ?thesis
    by (intro conjI)
qed

text \<open>
  Claim C3 as the specification words it does not hold. With 23 completions and 137 skips
  the percentage is exactly 14.375, which rounded to two decimals is 14.38, a half going
  up as \<^verbatim>\<open>Math.round\<close> takes it. The doubles of \<open>23 / 160 * 100 * 100\<close> come to
  \<open>1437.4999999999998\<close>, so the rate returned is the double of 14.37, which is below 14.37
  and so more than 0.005 below the percentage.
\<close>

theorem completionRate_tie_counterexample:
  "completionRateOf 23 137 = Some (binary64 (1437 / 100))
   \<and> real 23 / real (23 + 137) * 100 = 14375 / 1000
   \<and> mathRound (real 23 / real (23 + 137) * 100 * 100) / 100 = 1438 / 100
   \<and> binary64 (1437 / 100) < 1437 / 100
   \<and> binary64 (1437 / 100) < binary64 (1438 / 100)
   \<and> completionRateOf 23 137 \<noteq> Some (binary64 (1438 / 100))
   \<and> \<not> real 23 / real (23 + 137) * 100 - 1 / 200 < binary64 (1437 / 100)"
proof -
  have "real 23 / real (23 + 137) * 100 = (14375 / 1000 :: real)"
    by simp
  moreover have "mathRound (real 23 / real (23 + 137) * 100 * 100) / 100 = 1438 / 100"
    by (simp add: mathRound_def)
  moreover have "binary64 (1437 / 100) < 1437 / 100"
    unfolding binary64_1437 by simp
  moreover have "binary64 (1437 / 100) < binary64 (1438 / 100)"
    unfolding binary64_1437 binary64_1438 by simp
  moreover have "completionRateOf 23 137 \<noteq> Some (binary64 (1438 / 100))"
    unfolding completionRateOf_23_137 binary64_1437 binary64_1438 by simp
  moreover have "\<not> real 23 / real (23 + 137) * 100 - 1 / 200 < binary64 (1437 / 100)"
    unfolding binary64_1437 by simp
  ultimately show ?thesis
    using completionRateOf_23_137 by (intro conjI)
qed

subsection \<open>Sending the reminders of a habit\<close>

text \<open>
  The rows of a table have distinct ids (the primary key); under this the \<^verbatim>\<open>delete\<close> in the
  loop always finds its row, and one pass of the loop does the following.
\<close>

lemma sendLoop_effects:
  assumes "distinct (map subscriptionId ss)"
    and "\<forall>s\<in>set ss. \<exists>s'\<in>set (subscriptions w). subscriptionId s' = subscriptionId s"
  shows "\<exists>w'. sendLoop notify p ss w = Inr w'
     \<and> subscriptions w' =
         filter (\<lambda>x. \<not> (\<exists>t\<in>set ss. endpointGone notify p t \<and> subscriptionId t = subscriptionId x))
           (subscriptions w)
     \<and> sent w' = sent w @ map (\<lambda>s. (pushSubscriptionOf s, p)) ss
     \<and> console w' = console w @ concat (map (logLines notify p) ss)
     \<and> habits w' = habits w \<and> completions w' = completions w \<and> skips w' = skips w"
  using assms
proof (induction ss arbitrary: w)
  case Nil
  then show ?case by simp
next
  case (Cons s ss)
  let ?w1 = "w\<lparr>sent := sent w @ [(pushSubscriptionOf s, p)]\<rparr>"
  have dist: "distinct (map subscriptionId ss)"
    and fresh: "\<forall>t\<in>set ss. subscriptionId t \<noteq> subscriptionId s"
    using Cons.prems(1) by (auto simp: image_iff)
  have present: "\<exists>s'\<in>set (subscriptions w). subscriptionId s' = subscriptionId s"
    using Cons.prems(2) by simp
  have rest: "\<forall>t\<in>set ss. \<exists>s'\<in>set (subscriptions w). subscriptionId s' = subscriptionId t"
    using Cons.prems(2) by simp
  show ?case
  proof (cases "endpointGone notify p s")
    case True
    let ?w2 = "?w1\<lparr>subscriptions :=
                 filter (\<lambda>x. subscriptionId x \<noteq> subscriptionId s) (subscriptions ?w1)\<rparr>"
    let ?w3 = "?w2\<lparr>console := console ?w2 @ [DeletedExpired (subscriptionId s)]\<rparr>"
    have del: "deleteSubscriptionById (subscriptionId s) ?w1 = Inr ?w2"
      using present by (simp add: deleteSubscriptionById_def)
    have step: "sendLoop notify p (s # ss) w = sendLoop notify p ss ?w3"
      using True del by (simp add: Let_def endpointGone_def)
    have "\<forall>t\<in>set ss. \<exists>s'\<in>set (subscriptions ?w3). subscriptionId s' = subscriptionId t"
    proof
      fix t assume t: "t \<in> set ss"
      with rest obtain s' where s': "s' \<in> set (subscriptions w)"
        and eq: "subscriptionId s' = subscriptionId t" by blast
      from t fresh eq have "subscriptionId s' \<noteq> subscriptionId s" by force
      with s' eq show "\<exists>s'\<in>set (subscriptions ?w3). subscriptionId s' = subscriptionId t"
        by auto
    qed
    from Cons.IH [OF dist this] obtain w' where w':
      "sendLoop notify p ss ?w3 = Inr w'"
      "subscriptions w' =
         filter (\<lambda>x. \<not> (\<exists>t\<in>set ss. endpointGone notify p t \<and> subscriptionId t = subscriptionId x))
           (subscriptions ?w3)"
      "sent w' = sent ?w3 @ map (\<lambda>s. (pushSubscriptionOf s, p)) ss"
      "console w' = console ?w3 @ concat (map (logLines notify p) ss)"
      "habits w' = habits ?w3" "completions w' = completions ?w3" "skips w' = skips ?w3"
      by blast
    have subs: "subscriptions w' =
         filter (\<lambda>x. \<not> (\<exists>t\<in>set (s # ss). endpointGone notify p t \<and> subscriptionId t = subscriptionId x))
           (subscriptions w)"
      using True by (auto simp: w'(2) intro!: filter_cong)
    have logs: "logLines notify p s = [DeletedExpired (subscriptionId s)]"
      using True by (simp add: logLines_def endpointGone_def)
    show ?thesis
      using step w'(1,3-7) subs logs by simp
  next
    case False
    have keep: "(\<exists>t\<in>set (s # ss). endpointGone notify p t \<and> subscriptionId t = i)
        \<longleftrightarrow> (\<exists>t\<in>set ss. endpointGone notify p t \<and> subscriptionId t = i)" for i
      using False by auto
    show ?thesis
    proof (cases "notify (pushSubscriptionOf s) p")
      case Sent
      have step: "sendLoop notify p (s # ss) w = sendLoop notify p ss ?w1"
        using Sent by (simp add: Let_def)
      have "\<forall>t\<in>set ss. \<exists>s'\<in>set (subscriptions ?w1). subscriptionId s' = subscriptionId t"
        using rest by simp
      from Cons.IH [OF dist this] obtain w' where w':
        "sendLoop notify p ss ?w1 = Inr w'"
        "subscriptions w' =
           filter (\<lambda>x. \<not> (\<exists>t\<in>set ss. endpointGone notify p t \<and> subscriptionId t = subscriptionId x))
             (subscriptions ?w1)"
        "sent w' = sent ?w1 @ map (\<lambda>s. (pushSubscriptionOf s, p)) ss"
        "console w' = console ?w1 @ concat (map (logLines notify p) ss)"
        "habits w' = habits ?w1" "completions w' = completions ?w1" "skips w' = skips ?w1"
        by blast
      have logs: "logLines notify p s = []"
        using Sent by (simp add: logLines_def)
      show ?thesis
        using step w' logs by (simp only: keep) simp
    next
      case (SendError code)
      with False have code: "code \<noteq> Some 410"
        by (simp add: endpointGone_def)
      let ?w2 = "?w1\<lparr>console := console ?w1 @ [ErrorSending (subscriptionId s) code]\<rparr>"
      have step: "sendLoop notify p (s # ss) w = sendLoop notify p ss ?w2"
        using SendError code by (simp add: Let_def)
      have "\<forall>t\<in>set ss. \<exists>s'\<in>set (subscriptions ?w2). subscriptionId s' = subscriptionId t"
        using rest by simp
      from Cons.IH [OF dist this] obtain w' where w':
        "sendLoop notify p ss ?w2 = Inr w'"
        "subscriptions w' =
           filter (\<lambda>x. \<not> (\<exists>t\<in>set ss. endpointGone notify p t \<and> subscriptionId t = subscriptionId x))
             (subscriptions ?w2)"
        "sent w' = sent ?w2 @ map (\<lambda>s. (pushSubscriptionOf s, p)) ss"
        "console w' = console ?w2 @ concat (map (logLines notify p) ss)"
        "habits w' = habits ?w2" "completions w' = completions ?w2" "skips w' = skips ?w2"
        by blast
      have logs: "logLines notify p s = [ErrorSending (subscriptionId s) code]"
        using SendError code by (simp add: logLines_def)
      show ?thesis
        using step w' logs by (simp only: keep) simp
    qed
  qed
qed

lemma sendHabitReminder_effects:
  assumes "distinct (map subscriptionId (subscriptions w))"
  shows "\<exists>w'. sendHabitReminder notify hid msg w = Inr w'
     \<and> subscriptions w' =
         filter (\<lambda>x. \<not> (subscriptionHabitId x = Some hid
                        \<and> endpointGone notify (reminderPayload hid msg) x))
           (subscriptions w)
     \<and> sent w' = sent w @ map (\<lambda>s. (pushSubscriptionOf s, reminderPayload hid msg))
                           (filter (\<lambda>s. subscriptionHabitId s = Some hid) (subscriptions w))
     \<and> console w' = console w @ concat (map (logLines notify (reminderPayload hid msg))
                           (filter (\<lambda>s. subscriptionHabitId s = Some hid) (subscriptions w)))
     \<and> habits w' = habits w \<and> completions w' = completions w \<and> skips w' = skips w"
proof (cases "filter (\<lambda>s. subscriptionHabitId s = Some hid) (subscriptions w) = []")
  case True
  then have "\<forall>x\<in>set (subscriptions w). subscriptionHabitId x \<noteq> Some hid"
    by (simp add: filter_empty_conv)
  then have "filter (\<lambda>x. \<not> (subscriptionHabitId x = Some hid
                        \<and> endpointGone notify (reminderPayload hid msg) x)) (subscriptions w)
      = subscriptions w"
    by (simp add: filter_id_conv)
  with True show ?thesis
    by (simp add: sendHabitReminder_def)
next
  case False
  let ?ss = "filter (\<lambda>s. subscriptionHabitId s = Some hid) (subscriptions w)"
  let ?p = "reminderPayload hid msg"
  have run: "sendHabitReminder notify hid msg w = sendLoop notify ?p ?ss w"
    using False by (simp add: sendHabitReminder_def Let_def)
  have d: "distinct (map subscriptionId ?ss)"
    using assms by (rule distinct_map_filter)
  have "\<forall>s\<in>set ?ss. \<exists>s'\<in>set (subscriptions w). subscriptionId s' = subscriptionId s"
    by auto
  from sendLoop_effects [OF d this, of notify ?p] obtain w' where w':
    "sendLoop notify ?p ?ss w = Inr w'"
    "subscriptions w' =
       filter (\<lambda>x. \<not> (\<exists>t\<in>set ?ss. endpointGone notify ?p t \<and> subscriptionId t = subscriptionId x))
         (subscriptions w)"
    "sent w' = sent w @ map (\<lambda>s. (pushSubscriptionOf s, ?p)) ?ss"
    "console w' = console w @ concat (map (logLines notify ?p) ?ss)"
    "habits w' = habits w" "completions w' = completions w" "skips w' = skips w"
    by blast
  have inj: "inj_on subscriptionId (set (subscriptions w))"
    using assms by (simp add: distinct_map)
  have "filter (\<lambda>x. \<not> (\<exists>t\<in>set ?ss. endpointGone notify ?p t \<and> subscriptionId t = subscriptionId x))
         (subscriptions w)
      = filter (\<lambda>x. \<not> (subscriptionHabitId x = Some hid \<and> endpointGone notify ?p x))
         (subscriptions w)"
  proof (rule filter_cong [OF refl])
    fix x assume x: "x \<in> set (subscriptions w)"
    have "(\<exists>t\<in>set ?ss. endpointGone notify ?p t \<and> subscriptionId t = subscriptionId x)
        \<longleftrightarrow> subscriptionHabitId x = Some hid \<and> endpointGone notify ?p x"
    proof
      assume "\<exists>t\<in>set ?ss. endpointGone notify ?p t \<and> subscriptionId t = subscriptionId x"
      then obtain t where t: "t \<in> set (subscriptions w)" "subscriptionHabitId t = Some hid"
        "endpointGone notify ?p t" "subscriptionId t = subscriptionId x" by auto
      with inj x have "t = x" by (simp add: inj_on_def)
      with t show "subscriptionHabitId x = Some hid \<and> endpointGone notify ?p x" by simp
    next
      assume "subscriptionHabitId x = Some hid \<and> endpointGone notify ?p x"
      with x show "\<exists>t\<in>set ?ss. endpointGone notify ?p t \<and> subscriptionId t = subscriptionId x"
        by auto
    qed
    then show "(\<not> (\<exists>t\<in>set ?ss. endpointGone notify ?p t \<and> subscriptionId t = subscriptionId x))
        = (\<not> (subscriptionHabitId x = Some hid \<and> endpointGone notify ?p x))"
      by simp
  qed
  with run w' show ?thesis
    by simp
qed

text \<open>
  Claim C4, as amended. Dispatching a reminder for a habit calls the transport once for
  each subscription whose habit reference is this habit, in the order of the registry,
  each time with the payload \<open>{title: 'Habit Reminder', body: message, habitId}\<close>, and for
  no other subscription.
\<close>

theorem sendHabitReminder_notifies_habit_subscriptions:
  assumes "distinct (map subscriptionId (subscriptions w))"
  shows "\<exists>w'. sendHabitReminder notify hid message w = Inr w'
     \<and> sent w' = sent w @
         map (\<lambda>s. (pushSubscriptionOf s,
                    \<lparr>title = ''Habit Reminder'', body = message, payloadHabitId = hid\<rparr>))
           (filter (\<lambda>s. subscriptionHabitId s = Some hid) (subscriptions w))"
proof -
  from sendHabitReminder_effects [OF assms, of notify hid message] obtain w' where
    "sendHabitReminder notify hid message w = Inr w'"
    "sent w' = sent w @ map (\<lambda>s. (pushSubscriptionOf s, reminderPayload hid message))
                           (filter (\<lambda>s. subscriptionHabitId s = Some hid) (subscriptions w))"
    by blast
  then show ?thesis
    by (simp add: reminderPayload_def)
qed

text \<open>
  An instance: the three subscriptions of habit \<open>h\<close> are each called once, with that
  payload.
\<close>

theorem sendHabitReminder_notifies_habit_subscriptions_witness:
  "distinct (map subscriptionId (subscriptions threeSubscriptions))
   \<and> (\<exists>w'. sendHabitReminder flakyNotify ''h'' ''m'' threeSubscriptions = Inr w'
        \<and> map (\<lambda>(ps, p). (pushEndpoint ps, title p, body p, payloadHabitId p)) (sent w')
            = [(''e1'', ''Habit Reminder'', ''m'', ''h''),
               (''e2'', ''Habit Reminder'', ''m'', ''h''),
               (''e3'', ''Habit Reminder'', ''m'', ''h'')])"
proof -
  have d: "distinct (map subscriptionId (subscriptions threeSubscriptions))"
    by (simp add: threeSubscriptions_def emptyWorld_def subscriptionFor_def)
  from sendHabitReminder_notifies_habit_subscriptions [OF d, of flakyNotify "''h''" "''m''"]
  show ?thesis
  proof (elim exE conjE)
    fix w'
    assume run: "sendHabitReminder flakyNotify ''h'' ''m'' threeSubscriptions = Inr w'"
      and calls: "sent w' = sent threeSubscriptions @
         map (\<lambda>s. (pushSubscriptionOf s,
                    \<lparr>title = ''Habit Reminder'', body = ''m'', payloadHabitId = ''h''\<rparr>))
           (filter (\<lambda>s. subscriptionHabitId s = Some ''h'') (subscriptions threeSubscriptions))"
    have eval: "map (\<lambda>(ps, p). (pushEndpoint ps, title p, body p, payloadHabitId p)) (sent w')
            = [(''e1'', ''Habit Reminder'', ''m'', ''h''),
               (''e2'', ''Habit Reminder'', ''m'', ''h''),
               (''e3'', ''Habit Reminder'', ''m'', ''h'')]"
      unfolding calls
      by (simp add: threeSubscriptions_def emptyWorld_def subscriptionFor_def pushSubscriptionOf_def)
    show ?thesis
    proof (intro conjI exI)
      show "distinct (map subscriptionId (subscriptions threeSubscriptions))"
        by (rule d)
      show "sendHabitReminder flakyNotify ''h'' ''m'' threeSubscriptions = Inr w'"
        by (rule run)
      show "map (\<lambda>(ps, p). (pushEndpoint ps, title p, body p, payloadHabitId p)) (sent w')
            = [(''e1'', ''Habit Reminder'', ''m'', ''h''),
               (''e2'', ''Habit Reminder'', ''m'', ''h''),
               (''e3'', ''Habit Reminder'', ''m'', ''h'')]"
        by (rule eval)
    qed
  qed
qed

text \<open>
  Claim C4 as stated fails for a subscription with no habit reference: it belongs to the
  owner of the habit, it is the whole registry, and the dispatch for the habit returns
  the state as it was, with no call made.
\<close>

theorem sendHabitReminder_null_habit_counterexample:
  "subscriptionHabitId (subscriptionFor ''s4'' ''u'' None ''e4'') = None
   \<and> subscriptionUserId (subscriptionFor ''s4'' ''u'' None ''e4'') = habitUserId exampleHabit
   \<and> subscriptions allHabitsSubscription = [subscriptionFor ''s4'' ''u'' None ''e4'']
   \<and> sent allHabitsSubscription = []
   \<and> sendHabitReminder flakyNotify (habitId exampleHabit) ''m'' allHabitsSubscription
       = Inr allHabitsSubscription"
  by (simp add: sendHabitReminder_def allHabitsSubscription_def emptyWorld_def
      subscriptionFor_def exampleHabit_def)

text \<open>
  Claim C5. One dispatch attempts every subscription of the habit, whatever the
  outcome of the attempts before it; it removes from the registry exactly the
  subscriptions of the habit whose endpoint the transport reports gone; and it writes
  one console line for each failed attempt: the deletion for a gone endpoint, the error
  for any other failure. It always returns normally.
\<close>

theorem sendHabitReminder_partial_failure:
  assumes "distinct (map subscriptionId (subscriptions w))"
  shows "\<exists>w'. sendHabitReminder notify hid message w = Inr w'
     \<and> map fst (sent w') = map fst (sent w) @
         map pushSubscriptionOf (filter (\<lambda>s. subscriptionHabitId s = Some hid) (subscriptions w))
     \<and> subscriptions w' =
         filter (\<lambda>s. \<not> (subscriptionHabitId s = Some hid
                        \<and> endpointGone notify (reminderPayload hid message) s))
           (subscriptions w)
     \<and> console w' = console w @
         concat (map (logLines notify (reminderPayload hid message))
           (filter (\<lambda>s. subscriptionHabitId s = Some hid) (subscriptions w)))"
proof -
  from sendHabitReminder_effects [OF assms, of notify hid message] obtain w' where w':
    "sendHabitReminder notify hid message w = Inr w'"
    "subscriptions w' =
         filter (\<lambda>x. \<not> (subscriptionHabitId x = Some hid
                        \<and> endpointGone notify (reminderPayload hid message) x))
           (subscriptions w)"
    "sent w' = sent w @ map (\<lambda>s. (pushSubscriptionOf s, reminderPayload hid message))
                           (filter (\<lambda>s. subscriptionHabitId s = Some hid) (subscriptions w))"
    "console w' = console w @ concat (map (logLines notify (reminderPayload hid message))
                           (filter (\<lambda>s. subscriptionHabitId s = Some hid) (subscriptions w)))"
    by blast
  from w'(3) have "map fst (sent w') = map fst (sent w) @
         map pushSubscriptionOf (filter (\<lambda>s. subscriptionHabitId s = Some hid) (subscriptions w))"
    by (simp add: comp_def)
  with w'(1,2,4) show ?thesis by blast
qed

text \<open>
  An instance: of three subscriptions the first is gone and the third fails with status
  500. All three are attempted, the first is deleted, the other two stay, and the
  console has the deletion and the error.
\<close>

theorem sendHabitReminder_partial_failure_witness:
  "distinct (map subscriptionId (subscriptions threeSubscriptions))
   \<and> (\<exists>w'. sendHabitReminder flakyNotify ''h'' ''m'' threeSubscriptions = Inr w'
        \<and> map pushEndpoint (map fst (sent w')) = [''e1'', ''e2'', ''e3'']
        \<and> map subscriptionId (subscriptions w') = [''s2'', ''s3'']
        \<and> console w' = [DeletedExpired ''s1'', ErrorSending ''s3'' (Some 500)])"
proof -
  have d: "distinct (map subscriptionId (subscriptions threeSubscriptions))"
    by (simp add: threeSubscriptions_def emptyWorld_def subscriptionFor_def)
  from sendHabitReminder_partial_failure [OF d, of flakyNotify "''h''" "''m''"]
  show ?thesis
  proof (elim exE conjE)
    fix w'
    assume run: "sendHabitReminder flakyNotify ''h'' ''m'' threeSubscriptions = Inr w'"
      and calls: "map fst (sent w') = map fst (sent threeSubscriptions) @
         map pushSubscriptionOf
           (filter (\<lambda>s. subscriptionHabitId s = Some ''h'') (subscriptions threeSubscriptions))"
      and subs: "subscriptions w' =
         filter (\<lambda>s. \<not> (subscriptionHabitId s = Some ''h''
                        \<and> endpointGone flakyNotify (reminderPayload ''h'' ''m'') s))
           (subscriptions threeSubscriptions)"
      and logs: "console w' = console threeSubscriptions @
         concat (map (logLines flakyNotify (reminderPayload ''h'' ''m''))
           (filter (\<lambda>s. subscriptionHabitId s = Some ''h'') (subscriptions threeSubscriptions)))"
    have a: "map pushEndpoint (map fst (sent w')) = [''e1'', ''e2'', ''e3'']"
      unfolding calls
      by (simp add: threeSubscriptions_def emptyWorld_def subscriptionFor_def pushSubscriptionOf_def)
    have b: "map subscriptionId (subscriptions w') = [''s2'', ''s3'']"
      unfolding subs
      by (simp add: threeSubscriptions_def emptyWorld_def subscriptionFor_def pushSubscriptionOf_def
          endpointGone_def flakyNotify_def)
    have c: "console w' = [DeletedExpired ''s1'', ErrorSending ''s3'' (Some 500)]"
      unfolding logs
      by (simp add: threeSubscriptions_def emptyWorld_def subscriptionFor_def pushSubscriptionOf_def
          logLines_def flakyNotify_def)
    show ?thesis
    proof (intro conjI exI)
      show "distinct (map subscriptionId (subscriptions threeSubscriptions))"
        by (rule d)
      show "sendHabitReminder flakyNotify ''h'' ''m'' threeSubscriptions = Inr w'"
        by (rule run)
      show "map pushEndpoint (map fst (sent w')) = [''e1'', ''e2'', ''e3'']"
        by (rule a)
      show "map subscriptionId (subscriptions w') = [''s2'', ''s3'']"
        by (rule b)
      show "console w' = [DeletedExpired ''s1'', ErrorSending ''s3'' (Some 500)]"
        by (rule c)
    qed
  qed
qed

subsection \<open>Creating and reading completions\<close>

lemma count_list_sort_key: "count_list (sort_key f xs) x = count_list xs x"
  by (simp add: count_list_eq_length_filter filter_sort)

text \<open>
  Claim C7. For a habit owned by the caller and a date on which the habit has no
  completion: \<^verbatim>\<open>createCompletion\<close> succeeds (201) with a row of that habit and date; the
  completions then read for the habit contain that row exactly once; and another
  \<^verbatim>\<open>createCompletion\<close> for the same habit and date fails with "Completion already exists",
  which the controller answers with 409 Conflict, the ledger staying as it was.
\<close>

theorem createCompletion_once:
  assumes owned: "findHabit uid hid (habits w) = Some h"
    and caller: "uid \<noteq> []"
    and free: "\<forall>c\<in>set (completions w).
                 \<not> (completionHabitId c = hid \<and> completionDate c = inputDate data)"
    and same: "inputDate data' = inputDate data"
  shows "\<exists>c w' cs.
      createCompletion newId uid hid data w = Inr (c, w')
    \<and> create newId (Some uid) hid data w = (\<lparr>status = 201, error = None\<rparr>, w')
    \<and> completionHabitId c = hid \<and> completionDate c = inputDate data
    \<and> completionDuration c = inputDuration data \<and> completionNotes c = inputNotes data
    \<and> getCompletions tz uid hid None None w' = Inr cs
    \<and> count_list cs c = 1
    \<and> createCompletion newId' uid hid data' w' = Inl CompletionAlreadyExists
    \<and> create newId' (Some uid) hid data' w' = (\<lparr>status = 409, error = Some ''Conflict''\<rparr>, w')"
proof -
  define c where "c = \<lparr>completionId = newId, completionHabitId = hid,
      completionDate = inputDate data, completionDuration = inputDuration data,
      completionNotes = inputNotes data\<rparr>"
  define w' where "w' = w\<lparr>completions := completions w @ [c]\<rparr>"
  define cs where "cs = sort_key (\<lambda>x. - completionDate x)
      (filter (\<lambda>x. completionHabitId x = hid) (completions w'))"
  have none: "find (\<lambda>x. completionHabitId x = hid \<and> completionDate x = inputDate data)
      (completions w) = None"
    using free by (simp add: find_None_iff)
  have first: "createCompletion newId uid hid data w = Inr (c, w')"
    using owned none by (simp add: createCompletion_def Let_def c_def w'_def)
  have first_http: "create newId (Some uid) hid data w = (\<lparr>status = 201, error = None\<rparr>, w')"
    using first caller by (simp add: create_def missing_def)
  have owned': "findHabit uid hid (habits w') = Some h"
    using owned by (simp add: w'_def)
  have query: "getCompletions tz uid hid None None w' = Inr cs"
    using owned' by (simp add: getCompletions_def cs_def)
  have "c \<notin> set (completions w)"
    using free by (auto simp: c_def)
  then have "count_list (filter (\<lambda>x. completionHabitId x = hid) (completions w)) c = 0"
    by (simp add: count_list_0_iff)
  then have once: "count_list cs c = 1"
    by (simp add: cs_def w'_def count_list_sort_key) (simp add: c_def)
  have "find (\<lambda>x. completionHabitId x = hid \<and> completionDate x = inputDate data')
      (completions w') \<noteq> None"
  proof -
    have "c \<in> set (completions w')"
      and "completionHabitId c = hid \<and> completionDate c = inputDate data'"
      using same by (simp_all add: w'_def c_def)
    then show ?thesis
      unfolding find_None_iff by blast
  qed
  then obtain e where "find (\<lambda>x. completionHabitId x = hid \<and> completionDate x = inputDate data')
      (completions w') = Some e"
    by auto
  with owned' have second: "createCompletion newId' uid hid data' w' = Inl CompletionAlreadyExists"
    by (simp add: createCompletion_def)
  then have second_http:
    "create newId' (Some uid) hid data' w' = (\<lparr>status = 409, error = Some ''Conflict''\<rparr>, w')"
    using caller by (simp add: create_def missing_def)
  have fields: "completionHabitId c = hid \<and> completionDate c = inputDate data
    \<and> completionDuration c = inputDuration data \<and> completionNotes c = inputNotes data"
    by (simp add: c_def)
  from first first_http fields query once second second_http show ?thesis
    by blast
qed

text \<open>
  An instance: day 10 is free for habit \<open>h\<close> in the small ledger (its own completion is
  on day 9, the one on day 10 belongs to another habit).
\<close>

theorem createCompletion_once_witness:
  "findHabit ''u'' ''h'' (habits smallLedger) = Some exampleHabit
   \<and> (\<exists>c w' cs.
      createCompletion ''c1'' ''u'' ''h'' dayTen smallLedger = Inr (c, w')
    \<and> create ''c1'' (Some ''u'') ''h'' dayTen smallLedger = (\<lparr>status = 201, error = None\<rparr>, w')
    \<and> completionHabitId c = ''h'' \<and> completionDate c = inputDate dayTen
    \<and> completionDuration c = inputDuration dayTen \<and> completionNotes c = inputNotes dayTen
    \<and> getCompletions utc ''u'' ''h'' None None w' = Inr cs
    \<and> count_list cs c = 1
    \<and> createCompletion ''c2'' ''u'' ''h'' dayTen w' = Inl CompletionAlreadyExists
    \<and> create ''c2'' (Some ''u'') ''h'' dayTen w' = (\<lparr>status = 409, error = Some ''Conflict''\<rparr>, w'))"
proof -
  have owned: "findHabit ''u'' ''h'' (habits smallLedger) = Some exampleHabit"
    by (simp add: findHabit_def smallLedger_def emptyWorld_def exampleHabit_def)
  have caller: "''u'' \<noteq> []"
    by simp
  have free: "\<forall>c\<in>set (completions smallLedger).
      \<not> (completionHabitId c = ''h'' \<and> completionDate c = inputDate dayTen)"
    by (simp add: smallLedger_def emptyWorld_def completionAt_def dayTen_def)
  from owned createCompletion_once [OF owned caller free refl, of "''c1''" utc "''c2''"]
  show ?thesis
    by (rule conjI)
qed

subsection \<open>Unsubscribing\<close>

lemma find_first_present: "x \<in> set xs \<Longrightarrow> P x \<Longrightarrow> \<exists>y. find P xs = Some y \<and> P y \<and> y \<in> set xs"
  by (induction xs) auto

text \<open>
  Claim C8, as amended. Endpoints are unique in the registry. For a caller \<open>uid\<close> and an
  endpoint \<open>ep\<close>: registered to another owner, the service raises and the controller
  answers 403 Forbidden, registry unchanged; registered to the caller, the answer is 204
  and that subscription, and no other, is removed; not registered at all, the service
  returns \<open>false\<close> without raising and the controller answers 404 Not Found, registry
  unchanged.
\<close>

theorem unsubscribe_outcomes:
  assumes "distinct (map endpoint (subscriptions w))" and "uid \<noteq> []" and "ep \<noteq> []"
  shows "(s \<in> set (subscriptions w) \<and> endpoint s = ep \<and> subscriptionUserId s \<noteq> uid \<longrightarrow>
          deleteSubscription uid ep w = Inl SubscriptionNotOwned
          \<and> unsubscribe (Some uid) (Some ep) w = (\<lparr>status = 403, error = Some ''Forbidden''\<rparr>, w))
     \<and> (s \<in> set (subscriptions w) \<and> endpoint s = ep \<and> subscriptionUserId s = uid \<longrightarrow>
          unsubscribe (Some uid) (Some ep) w =
            (\<lparr>status = 204, error = None\<rparr>,
             w\<lparr>subscriptions := filter (\<lambda>x. x \<noteq> s) (subscriptions w)\<rparr>))
     \<and> ((\<forall>x\<in>set (subscriptions w). endpoint x \<noteq> ep) \<longrightarrow>
          deleteSubscription uid ep w = Inr (False, w)
          \<and> unsubscribe (Some uid) (Some ep) w = (\<lparr>status = 404, error = Some ''Not Found''\<rparr>, w))"
proof (intro conjI impI)
  have inj: "inj_on endpoint (set (subscriptions w))"
    using assms(1) by (simp add: distinct_map)
  have found: "find (\<lambda>x. endpoint x = ep) (subscriptions w) = Some s"
    if "s \<in> set (subscriptions w) \<and> endpoint s = ep"
  proof -
    from that find_first_present [of s "subscriptions w" "\<lambda>x. endpoint x = ep"]
    obtain y where y: "find (\<lambda>x. endpoint x = ep) (subscriptions w) = Some y"
      "endpoint y = ep" "y \<in> set (subscriptions w)" by blast
    with that inj have "y = s" by (simp add: inj_on_def)
    with y show ?thesis by simp
  qed
  show d403: "deleteSubscription uid ep w = Inl SubscriptionNotOwned"
    if "s \<in> set (subscriptions w) \<and> endpoint s = ep \<and> subscriptionUserId s \<noteq> uid"
    using that found by (simp add: deleteSubscription_def)
  show "unsubscribe (Some uid) (Some ep) w = (\<lparr>status = 403, error = Some ''Forbidden''\<rparr>, w)"
    if "s \<in> set (subscriptions w) \<and> endpoint s = ep \<and> subscriptionUserId s \<noteq> uid"
    using d403 [OF that] assms(2,3) by (simp add: unsubscribe_def missing_def)
  show "unsubscribe (Some uid) (Some ep) w =
            (\<lparr>status = 204, error = None\<rparr>,
             w\<lparr>subscriptions := filter (\<lambda>x. x \<noteq> s) (subscriptions w)\<rparr>)"
    if h: "s \<in> set (subscriptions w) \<and> endpoint s = ep \<and> subscriptionUserId s = uid"
  proof -
    have "filter (\<lambda>x. endpoint x \<noteq> ep) (subscriptions w) = filter (\<lambda>x. x \<noteq> s) (subscriptions w)"
    proof (rule filter_cong [OF refl])
      fix x assume "x \<in> set (subscriptions w)"
      with h inj show "(endpoint x \<noteq> ep) = (x \<noteq> s)"
        by (auto simp: inj_on_def)
    qed
    with h found assms(2,3) show ?thesis
      by (simp add: unsubscribe_def missing_def deleteSubscription_def)
  qed
  show d404: "deleteSubscription uid ep w = Inr (False, w)"
    if "\<forall>x\<in>set (subscriptions w). endpoint x \<noteq> ep"
  proof -
    from that have "find (\<lambda>x. endpoint x = ep) (subscriptions w) = None"
      by (simp add: find_None_iff)
    then show ?thesis by (simp add: deleteSubscription_def)
  qed
  show "unsubscribe (Some uid) (Some ep) w = (\<lparr>status = 404, error = Some ''Not Found''\<rparr>, w)"
    if "\<forall>x\<in>set (subscriptions w). endpoint x \<noteq> ep"
    using d404 [OF that] assms(2,3) by (simp add: unsubscribe_def missing_def)
qed

text \<open>
  An instance on the registry of three: another user asking for the first endpoint, the
  owner asking for the second, the owner asking for an endpoint nobody registered.
\<close>

theorem unsubscribe_outcomes_witness:
  "distinct (map endpoint (subscriptions threeSubscriptions))
   \<and> unsubscribe (Some ''v'') (Some ''e1'') threeSubscriptions
       = (\<lparr>status = 403, error = Some ''Forbidden''\<rparr>, threeSubscriptions)
   \<and> unsubscribe (Some ''u'') (Some ''e2'') threeSubscriptions
       = (\<lparr>status = 204, error = None\<rparr>,
          threeSubscriptions\<lparr>subscriptions :=
            [subscriptionFor ''s1'' ''u'' (Some ''h'') ''e1'',
             subscriptionFor ''s3'' ''u'' (Some ''h'') ''e3'']\<rparr>)
   \<and> unsubscribe (Some ''u'') (Some ''e9'') threeSubscriptions
       = (\<lparr>status = 404, error = Some ''Not Found''\<rparr>, threeSubscriptions)"
proof -
  have d: "distinct (map endpoint (subscriptions threeSubscriptions))"
    by (simp add: threeSubscriptions_def emptyWorld_def subscriptionFor_def)
  have subs: "subscriptions threeSubscriptions =
      [subscriptionFor ''s1'' ''u'' (Some ''h'') ''e1'',
       subscriptionFor ''s2'' ''u'' (Some ''h'') ''e2'',
       subscriptionFor ''s3'' ''u'' (Some ''h'') ''e3'']"
    by (simp add: threeSubscriptions_def emptyWorld_def)
  have a: "unsubscribe (Some ''v'') (Some ''e1'') threeSubscriptions
       = (\<lparr>status = 403, error = Some ''Forbidden''\<rparr>, threeSubscriptions)"
    using unsubscribe_outcomes [OF d, of "''v''" "''e1''" "subscriptionFor ''s1'' ''u'' (Some ''h'') ''e1''"]
    by (simp add: subs) (simp add: subscriptionFor_def)
  have b: "unsubscribe (Some ''u'') (Some ''e2'') threeSubscriptions
       = (\<lparr>status = 204, error = None\<rparr>,
          threeSubscriptions\<lparr>subscriptions :=
            [subscriptionFor ''s1'' ''u'' (Some ''h'') ''e1'',
             subscriptionFor ''s3'' ''u'' (Some ''h'') ''e3'']\<rparr>)"
    using unsubscribe_outcomes [OF d, of "''u''" "''e2''" "subscriptionFor ''s2'' ''u'' (Some ''h'') ''e2''"]
    by (simp add: subs) (simp add: subscriptionFor_def)
  have c: "unsubscribe (Some ''u'') (Some ''e9'') threeSubscriptions
       = (\<lparr>status = 404, error = Some ''Not Found''\<rparr>, threeSubscriptions)"
    using unsubscribe_outcomes [OF d, of "''u''" "''e9''" "subscriptionFor ''s2'' ''u'' (Some ''h'') ''e2''"]
    by (simp add: subs) (simp add: subscriptionFor_def)
  from d a b c show ?thesis
    by (intro conjI)
qed

text \<open>
  Claim C8 as stated fails where the endpoint is not registered: the answer is the error
  404 Not Found, not a success.
\<close>

theorem unsubscribe_not_found_counterexample:
  "unsubscribe (Some ''u'') (Some ''e9'') threeSubscriptions
       = (\<lparr>status = 404, error = Some ''Not Found''\<rparr>, threeSubscriptions)"
  by (simp add: unsubscribe_def missing_def deleteSubscription_def threeSubscriptions_def
      emptyWorld_def subscriptionFor_def)

subsection \<open>The reminder check\<close>

lemma div_eq_iff_between:
  fixes a b k :: int
  assumes "0 < b"
  shows "a div b = k \<longleftrightarrow> k * b \<le> a \<and> a < k * b + b"
proof
  assume "a div b = k"
  moreover have "a = b * (a div b) + a mod b"
    by simp
  moreover have "0 \<le> a mod b" and "a mod b < b"
    using assms by simp_all
  ultimately show "k * b \<le> a \<and> a < k * b + b"
    by (simp add: mult.commute)
next
  assume "k * b \<le> a \<and> a < k * b + b"
  then have "a = b * k + (a - k * b)" and "0 \<le> a - k * b" and "a - k * b < b"
    by (simp_all add: mult.commute)
  then show "a div b = k"
    by (rule int_div_pos_eq)
qed



text \<open>
  The same in New York, where the day of the change to summer time has 23 hours: the
  window from the start of today to the start of tomorrow is the local day of \<open>now\<close>.
\<close>

lemma today_window_newYork:
  "startOfToday newYork now \<le> t \<and> t < startOfTomorrow newYork now
   \<longleftrightarrow> localDay newYork t = localDay newYork now"
proof -
  define d where "d = localDay newYork now"
  have day: "localDay newYork t = d \<longleftrightarrow>
      d * 86400000 \<le> t + utcOffset newYork t \<and> t + utcOffset newYork t < d * 86400000 + 86400000"
    using div_eq_iff_between [of 86400000 "t + utcOffset newYork t" d]
    by (simp add: localDay_def msPerDay_def)
  have window: "startOfToday newYork now = d * 86400000 - wallOffset newYork (d * 86400000)"
    "startOfTomorrow newYork now
       = (d + 1) * 86400000 - wallOffset newYork ((d + 1) * 86400000)"
    by (simp_all add: startOfToday_def startOfTomorrow_def startOfDay_def localMidnight_def
        d_def msPerDay_def)
  consider "d \<le> 19791" | "d = 19792" | "19793 \<le> d"
    by linarith
  then have "d * 86400000 - wallOffset newYork (d * 86400000) \<le> t
      \<and> t < (d + 1) * 86400000 - wallOffset newYork ((d + 1) * 86400000)
    \<longleftrightarrow> d * 86400000 \<le> t + utcOffset newYork t
      \<and> t + utcOffset newYork t < d * 86400000 + 86400000"
  proof cases
    case 1
    then have "d * 86400000 < 1710039600000" "(d + 1) * 86400000 < 1710039600000"
      by simp_all
    with 1 show ?thesis
      by (cases "t < 1710054000000") (auto simp: newYork_def)
  next
    case 2
    show ?thesis
      unfolding 2 by (cases "t < 1710054000000") (auto simp: newYork_def)
  next
    case 3
    then have "\<not> d * 86400000 < 1710039600000" "\<not> (d + 1) * 86400000 < 1710039600000"
      by simp_all
    with 3 show ?thesis
      by (cases "t < 1710054000000") (auto simp: newYork_def)
  qed
  with day window show ?thesis
    by (simp add: d_def)
qed

lemma completedToday_newYork:
  "completedToday newYork now cs = completedOn newYork cs (localDay newYork now)"
  by (simp add: completedToday_def completedOn_def today_window_newYork)













end
